theory Spec2Isabelle
  imports Complex_Main
begin

section \<open>Contact histograms of mdtools: the per-frame engine \<open>contact_hist\<close>\<close>

text \<open>
  The development embeds the function \<open>contact_hist\<close> of
  \<^verbatim>\<open>scripts/structure/contact_hist_deprecated.py\<close>.

  An atom group gives, for each of its atoms in group order, the index of the residue
  the atom belongs to (\<open>ag.resindices\<close>), together with the residue table of the
  universe, which gives the residue id (\<open>resid\<close>) of every residue.  Two different
  residues may carry the same residue id.  The source uses both notions: the number of
  residues of a group (\<open>ag.n_residues\<close>) counts the different residue indices, while the
  rows and columns of the per-residue arrays are found by the residue ids
  (\<open>np.unique(ag.resids)\<close>).  An atom is identified by its position in its group (the
  atom ids of a group are pairwise different, so \<open>np.intersect1d(sel.ids,
  sel_near_ref.ids, return_indices=True)[1]\<close> is the list of positions in \<open>sel\<close> of
  the atoms of \<open>sel_near_ref\<close>).  The arrays of the source have dtype \<open>uint32\<close>: every
  write into one of them is reduced modulo \<open>2 ^ 32\<close>.
\<close>

subsection \<open>Data model\<close>

record atom_group =
  resid_of :: "nat \<Rightarrow> int"
  resindices :: "nat list"

definition n_atoms :: "atom_group \<Rightarrow> nat" where
  "n_atoms ag = length (resindices ag)"

text \<open>\<open>ag.resids\<close>: the residue id of each atom of the group.\<close>

definition resids :: "atom_group \<Rightarrow> int list" where
  "resids ag = map (resid_of ag) (resindices ag)"

text \<open>\<open>ag.n_residues\<close>: the number of different residues the atoms of the group belong to.\<close>

definition n_residues :: "atom_group \<Rightarrow> nat" where
  "n_residues ag = length (remdups (resindices ag))"

text \<open>\<open>np.unique\<close>: the sorted list of the different values.\<close>

definition unique :: "int list \<Rightarrow> int list" where
  "unique xs = sort (remdups xs)"

text \<open>\<open>np.unique(..., return_counts=True)[1]\<close>: the multiplicity of each unique value.\<close>

definition unique_counts :: "int list \<Rightarrow> nat list" where
  "unique_counts xs = map (\<lambda>r. count_list xs r) (unique xs)"

text \<open>Writes into a \<open>uint32\<close> array wrap around.\<close>

definition u32 :: "nat \<Rightarrow> nat" where
  "u32 n = n mod 4294967296"

text \<open>
  Modelled from the spec: \<open>mdt.nph.extend\<close> is not among the source files.  The
  specification describes it as "ensure capacity \<open>\<ge>\<close> k, zero-filling new slots": the
  array is zero-padded on the right to the given length and never truncated.
\<close>

definition nph_extend :: "nat list \<Rightarrow> nat \<Rightarrow> nat list" where
  "nph_extend a n = a @ replicate (n - length a) 0"

text \<open>
  Modelled from the spec: \<open>mdt.select.atoms_around_point\<close> is the external neighbour
  query.  Its answer is given by the relation \<open>contact\<close>: \<open>contact i j\<close> holds when
  selection atom \<open>j\<close> lies within the cutoff of reference atom \<open>i\<close>.  The result is the
  sub-group of \<open>sel\<close> of the atoms in contact: \<open>atoms_around_point\<close> is the list of
  their positions in \<open>sel\<close>, and \<open>near_group\<close> is the atom group they form.
\<close>

definition atoms_around_point :: "(nat \<Rightarrow> nat \<Rightarrow> bool) \<Rightarrow> atom_group \<Rightarrow> nat \<Rightarrow> nat list" where
  "atoms_around_point contact sel i = filter (contact i) [0..<n_atoms sel]"

definition near_group :: "atom_group \<Rightarrow> (nat \<Rightarrow> nat \<Rightarrow> bool) \<Rightarrow> nat \<Rightarrow> atom_group" where
  "near_group sel contact i =
    sel\<lparr>resindices := map (\<lambda>j. resindices sel ! j) (atoms_around_point contact sel i)\<rparr>"

subsection \<open>The numpy operations used by the loop\<close>

text \<open>\<open>np.searchsorted(a, v)\<close> (side left) on a sorted array: the number of entries below \<open>v\<close>.\<close>

definition searchsorted :: "int list \<Rightarrow> int \<Rightarrow> nat" where
  "searchsorted a v = length (takeWhile (\<lambda>x. x < v) a)"

definition index_of :: "int list \<Rightarrow> int \<Rightarrow> nat" where
  "index_of a v = length (takeWhile (\<lambda>x. x \<noteq> v) a)"

text \<open>
  \<open>np.intersect1d(a, b, assume_unique=True, return_indices=True)[1]\<close>: the positions in
  \<open>a\<close> of the values common to \<open>a\<close> and \<open>b\<close>, in increasing order of the values.
\<close>

definition intersect1d_indices :: "int list \<Rightarrow> int list \<Rightarrow> nat list" where
  "intersect1d_indices a b = map (index_of a) (sort (filter (\<lambda>v. v \<in> set b) a))"

text \<open>\<open>h = extend(h, n + 1); h[n] += 1\<close>\<close>

definition bump :: "nat list \<Rightarrow> nat \<Rightarrow> nat list" where
  "bump h n = (let h' = nph_extend h (n + 1) in h'[n := u32 (h' ! n + 1)])"

text \<open>
  \<open>a[idx] += v\<close> with an index array: numpy first reads \<open>a[idx]\<close>, adds, and then
  assigns the results back one by one, so an index that occurs several times is increased
  once only.
\<close>

definition fancy_add :: "nat list \<Rightarrow> nat list \<Rightarrow> nat \<Rightarrow> nat list" where
  "fancy_add a idx v = fold (\<lambda>j b. b[j := u32 (a ! j + v)]) idx a"

text \<open>\<open>np.add.at(a, idx, vs)\<close>: unbuffered, every occurrence of an index is added.\<close>

definition add_at :: "nat list \<Rightarrow> nat list \<Rightarrow> nat list \<Rightarrow> nat list" where
  "add_at a idx vs = fold (\<lambda>jv b. b[fst jv := u32 (b ! fst jv + snd jv)]) (zip idx vs) a"

text \<open>\<open>np.count_nonzero(mask[idx])\<close> and \<open>mask[idx] = False\<close>\<close>

definition count_unused :: "bool list \<Rightarrow> nat list \<Rightarrow> nat" where
  "count_unused msk idx = length (filter (\<lambda>j. msk ! j) idx)"

definition mark_used :: "bool list \<Rightarrow> nat list \<Rightarrow> bool list" where
  "mark_used msk idx = fold (\<lambda>j b. b[j := False]) idx msk"

text \<open>\<open>np.max\<close> of an array of naturals (the arrays it is applied to are not empty).\<close>

definition np_max :: "nat list \<Rightarrow> nat" where
  "np_max xs = fold max xs 0"

text \<open>\<open>np.bincount(xs).astype(np.uint32)\<close>\<close>

definition bincount :: "nat list \<Rightarrow> nat list" where
  "bincount xs = (if xs = [] then [] else map (\<lambda>v. u32 (count_list xs v)) [0..<np_max xs + 1])"

subsection \<open>The loop over the reference atoms\<close>

record frame_state =
  st_refatm_selatm :: "nat list"
  st_refatm_diff_selres :: "nat list"
  st_refatm_same_selres :: "nat list"
  st_refres_diff_selatm :: "nat list"
  st_refres_selatm_tot :: "nat list"
  st_refres_diff_selres :: "nat list"
  st_refatm_selres_pair :: "nat list"
  st_refres_selatm_pair :: "nat list list"
  st_refres_selres_pair :: "nat list list"
  st_selatm_unused :: "bool list list"
  st_selres_unused :: "bool list list"

definition init_state :: "atom_group \<Rightarrow> atom_group \<Rightarrow> nat \<Rightarrow> frame_state" where
  "init_state ref sel expected_max_contacts =
    \<lparr> st_refatm_selatm = replicate expected_max_contacts 0,
      st_refatm_diff_selres = replicate expected_max_contacts 0,
      st_refatm_same_selres = replicate expected_max_contacts 0,
      st_refres_diff_selatm = replicate (n_residues ref) 0,
      st_refres_selatm_tot = replicate (n_residues ref) 0,
      st_refres_diff_selres = replicate (n_residues ref) 0,
      st_refatm_selres_pair = replicate expected_max_contacts 0,
      st_refres_selatm_pair = replicate (n_residues ref) (replicate (n_atoms sel) 0),
      st_refres_selres_pair = replicate (n_residues ref) (replicate (n_residues sel) 0),
      st_selatm_unused = replicate (n_residues ref) (replicate (n_atoms sel) True),
      st_selres_unused = replicate (n_residues ref) (replicate (n_residues sel) True) \<rparr>"

text \<open>\<open>sel_near_ref.resids\<close>: the resids of the selection atoms around reference atom \<open>i\<close>.\<close>

definition near_resids :: "atom_group \<Rightarrow> (nat \<Rightarrow> nat \<Rightarrow> bool) \<Rightarrow> nat \<Rightarrow> int list" where
  "near_resids sel contact i = resids (near_group sel contact i)"

text \<open>
  The body of \<open>for refatm in ref.atoms\<close> (lines 465 to 512), for the reference atom at
  position \<open>i\<close>.  Every array is read in the state before the atom, as in the source,
  where each statement reads an array before it writes into it.  The bin of
  \<open>refatm_diff_selres\<close> is \<open>sel_near_ref.n_residues\<close> (line 476), the row of the
  per-residue arrays is \<open>np.searchsorted(unique_refresids, refatm.resid)\<close> (line 491).
\<close>

definition step :: "atom_group \<Rightarrow> atom_group \<Rightarrow> (nat \<Rightarrow> nat \<Rightarrow> bool) \<Rightarrow> nat \<Rightarrow> frame_state \<Rightarrow> frame_state" where
  "step ref sel contact i s =
    (let sel_near_ref = atoms_around_point contact sel i;
         near_n_atoms = length sel_near_ref;
         near_n_residues = n_residues (near_group sel contact i);
         selresids = unique (near_resids sel contact i);
         selresids_counts = unique_counts (near_resids sel contact i);
         selresids_counts_max = np_max selresids_counts;
         refresid = searchsorted (unique (resids ref)) (resids ref ! i);
         selatmids = sel_near_ref;
         n_atoms' = count_unused (st_selatm_unused s ! refresid) selatmids;
         selresids' = intersect1d_indices (unique (resids sel)) selresids;
         n_residues' = count_unused (st_selres_unused s ! refresid) selresids'
     in \<lparr> st_refatm_selatm = bump (st_refatm_selatm s) near_n_atoms,
          st_refatm_diff_selres = bump (st_refatm_diff_selres s) near_n_residues,
          st_refatm_same_selres =
            (if selresids = [] then
               (st_refatm_same_selres s)[0 := u32 (st_refatm_same_selres s ! 0 + 1)]
             else fancy_add (nph_extend (st_refatm_same_selres s) (selresids_counts_max + 1))
                    selresids_counts 1),
          st_refres_diff_selatm =
            (st_refres_diff_selatm s)[refresid := u32 (st_refres_diff_selatm s ! refresid + n_atoms')],
          st_refres_selatm_tot =
            (st_refres_selatm_tot s)[refresid := u32 (st_refres_selatm_tot s ! refresid + near_n_atoms)],
          st_refres_diff_selres =
            (st_refres_diff_selres s)[refresid := u32 (st_refres_diff_selres s ! refresid + n_residues')],
          st_refatm_selres_pair =
            (if selresids = [] then st_refatm_selres_pair s
             else add_at (nph_extend (st_refatm_selres_pair s) (selresids_counts_max + 1))
                    selresids_counts (replicate (length selresids_counts) 1)),
          st_refres_selatm_pair =
            (st_refres_selatm_pair s)[refresid := fancy_add (st_refres_selatm_pair s ! refresid) selatmids 1],
          st_refres_selres_pair =
            (st_refres_selres_pair s)[refresid :=
               add_at (st_refres_selres_pair s ! refresid) selresids' selresids_counts],
          st_selatm_unused =
            (st_selatm_unused s)[refresid := mark_used (st_selatm_unused s ! refresid) selatmids],
          st_selres_unused =
            (st_selres_unused s)[refresid := mark_used (st_selres_unused s ! refresid) selresids'] \<rparr>)"

definition run_loop :: "atom_group \<Rightarrow> atom_group \<Rightarrow> (nat \<Rightarrow> nat \<Rightarrow> bool) \<Rightarrow> nat list \<Rightarrow> frame_state \<Rightarrow> frame_state" where
  "run_loop ref sel contact ks s = fold (step ref sel contact) ks s"

subsection \<open>The histograms derived from the pair-count matrices\<close>

text \<open>
  \<open>refres_same_selatm\<close> and \<open>refres_same_selres\<close> (lines 516 to 541): for every bond count \<open>n\<close> from 1 to
  the maximum of the matrix, the number of rows with an entry equal to \<open>n\<close>; then bin 0 is
  set to the number of reference residues and reduced by the number of rows with a nonzero
  entry (in \<open>uint32\<close> arithmetic).
\<close>

definition rows_with :: "nat list list \<Rightarrow> nat \<Rightarrow> nat" where
  "rows_with m n = length (filter (\<lambda>row. \<exists>x \<in> set row. x = n) m)"

definition rows_nonzero :: "nat list list \<Rightarrow> nat" where
  "rows_nonzero m = length (filter (\<lambda>row. \<exists>x \<in> set row. x \<noteq> 0) m)"

definition u32_sub :: "nat \<Rightarrow> nat \<Rightarrow> nat" where
  "u32_sub a b = (a + 4294967296 - u32 b) mod 4294967296"

definition same_hist :: "nat \<Rightarrow> nat list list \<Rightarrow> nat list" where
  "same_hist nres m =
    (let max_contacts = np_max (concat m) + 1;
         h = fold (\<lambda>n h. h[n := u32 (rows_with m n)]) [1..<max_contacts] (replicate max_contacts 0);
         h = h[0 := u32 nres]
     in h[0 := u32_sub (h ! 0) (rows_nonzero m)])"

text \<open>
  Lines 549 to 554:
  \<open>refres_X_pair = np.bincount(matrix.flat).astype(np.uint32); refres_X_pair[0] = 0\<close>
\<close>

definition pair_hist :: "nat list list \<Rightarrow> nat list" where
  "pair_hist m = (bincount (concat m))[0 := 0]"

subsection \<open>The function \<open>contact_hist\<close>\<close>

record hists =
  refatm_selatm :: "nat list"
  refatm_diff_selres :: "nat list"
  refatm_same_selres :: "nat list"
  refres_diff_selatm :: "nat list"
  refres_same_selatm :: "nat list"
  refres_selatm_tot :: "nat list"
  refres_diff_selres :: "nat list"
  refres_same_selres :: "nat list"
  refatm_selres_pair :: "nat list"
  refres_selatm_pair :: "nat list"
  refres_selres_pair :: "nat list"

text \<open>The eleven histograms before the unification of their shapes (lines 465 to 554).\<close>

definition raw_hists :: "atom_group \<Rightarrow> atom_group \<Rightarrow> (nat \<Rightarrow> nat \<Rightarrow> bool) \<Rightarrow> nat \<Rightarrow> hists" where
  "raw_hists ref sel contact expected_max_contacts =
    (let s = run_loop ref sel contact [0..<n_atoms ref] (init_state ref sel expected_max_contacts)
     in \<lparr> refatm_selatm = st_refatm_selatm s,
          refatm_diff_selres = st_refatm_diff_selres s,
          refatm_same_selres = st_refatm_same_selres s,
          refres_diff_selatm = bincount (st_refres_diff_selatm s),
          refres_same_selatm = same_hist (n_residues ref) (st_refres_selatm_pair s),
          refres_selatm_tot = bincount (st_refres_selatm_tot s),
          refres_diff_selres = bincount (st_refres_diff_selres s),
          refres_same_selres = same_hist (n_residues ref) (st_refres_selres_pair s),
          refatm_selres_pair = st_refatm_selres_pair s,
          refres_selatm_pair = pair_hist (st_refres_selatm_pair s),
          refres_selres_pair = pair_hist (st_refres_selres_pair s) \<rparr>)"

text \<open>The common length (line 556) and the padding of all histograms to it.\<close>

definition common_length :: "hists \<Rightarrow> nat" where
  "common_length h =
    max (length (refatm_selatm h))
   (max (length (refatm_diff_selres h))
   (max (length (refatm_same_selres h))
   (max (length (refres_diff_selatm h))
   (max (length (refres_same_selatm h))
   (max (length (refres_selatm_tot h))
   (max (length (refres_diff_selres h))
   (max (length (refres_same_selres h))
   (max (length (refatm_selres_pair h))
   (max (length (refres_selatm_pair h))
        (length (refres_selres_pair h)))))))))))"

definition extend_all :: "hists \<Rightarrow> nat \<Rightarrow> hists" where
  "extend_all h n =
    \<lparr> refatm_selatm = nph_extend (refatm_selatm h) n,
      refatm_diff_selres = nph_extend (refatm_diff_selres h) n,
      refatm_same_selres = nph_extend (refatm_same_selres h) n,
      refres_diff_selatm = nph_extend (refres_diff_selatm h) n,
      refres_same_selatm = nph_extend (refres_same_selatm h) n,
      refres_selatm_tot = nph_extend (refres_selatm_tot h) n,
      refres_diff_selres = nph_extend (refres_diff_selres h) n,
      refres_same_selres = nph_extend (refres_same_selres h) n,
      refatm_selres_pair = nph_extend (refatm_selres_pair h) n,
      refres_selatm_pair = nph_extend (refres_selatm_pair h) n,
      refres_selres_pair = nph_extend (refres_selres_pair h) n \<rparr>"

definition normal_path :: "atom_group \<Rightarrow> atom_group \<Rightarrow> (nat \<Rightarrow> nat \<Rightarrow> bool) \<Rightarrow> nat \<Rightarrow> hists" where
  "normal_path ref sel contact expected_max_contacts =
    (let h = raw_hists ref sel contact expected_max_contacts
     in extend_all h (common_length h))"

text \<open>The results of the two early returns (lines 442 to 447).\<close>

definition const_hists :: "nat \<Rightarrow> nat \<Rightarrow> nat \<Rightarrow> hists" where
  "const_hists a r p =
    \<lparr> refatm_selatm = [a], refatm_diff_selres = [a], refatm_same_selres = [a],
      refres_diff_selatm = [r], refres_same_selatm = [r], refres_selatm_tot = [r],
      refres_diff_selres = [r], refres_same_selres = [r],
      refatm_selres_pair = [p], refres_selatm_pair = [p], refres_selres_pair = [p] \<rparr>"

text \<open>
  \<open>contact_hist\<close> returns whether the warning about the cutoff was emitted, and the
  eleven histograms.  The block guarded by \<open>debug\<close> (lines 579 to 841) either raises or
  leaves the histograms as they are, and it comes after both early returns; the model is
  the function with \<open>debug=False\<close>.
\<close>

definition contact_hist :: "atom_group \<Rightarrow> atom_group \<Rightarrow> (nat \<Rightarrow> nat \<Rightarrow> bool) \<Rightarrow> real \<Rightarrow> int \<Rightarrow> bool \<times> hists" where
  "contact_hist ref sel contact cutoff expected_max_contacts =
    (let warned = (cutoff \<le> 0);
         expected_max_contacts = (if expected_max_contacts \<le> 0 then 16 else expected_max_contacts)
     in if n_atoms ref = 0 then (warned, const_hists 0 0 0)
        else if n_atoms sel = 0 \<or> cutoff \<le> 0 then
          (warned, const_hists (n_atoms ref) (n_residues ref) 0)
        else (warned, normal_path ref sel contact (nat expected_max_contacts)))"

subsection \<open>Notions used to state the properties\<close>

text \<open>Reading a histogram at any bin: a bin beyond the end of the array counts as empty.\<close>

definition bin :: "nat list \<Rightarrow> nat \<Rightarrow> nat" where
  "bin h m = (if m < length h then h ! m else 0)"

text \<open>The state of the frame after the loop over all reference atoms.\<close>

definition final_state :: "atom_group \<Rightarrow> atom_group \<Rightarrow> (nat \<Rightarrow> nat \<Rightarrow> bool) \<Rightarrow> nat \<Rightarrow> frame_state" where
  "final_state ref sel contact expected_max_contacts =
    run_loop ref sel contact [0..<n_atoms ref] (init_state ref sel expected_max_contacts)"

text \<open>The state of the frame after the first \<open>k\<close> reference atoms have been processed.\<close>

definition state_after :: "atom_group \<Rightarrow> atom_group \<Rightarrow> (nat \<Rightarrow> nat \<Rightarrow> bool) \<Rightarrow> nat \<Rightarrow> nat \<Rightarrow> frame_state" where
  "state_after ref sel contact expected_max_contacts k =
    run_loop ref sel contact [0..<k] (init_state ref sel expected_max_contacts)"

text \<open>
  The tuple returned by \<open>contact_hist\<close>, in the order of the \<open>return\<close> statement, and
  the values of its eleven histograms at one bin.
\<close>

definition hists_list :: "hists \<Rightarrow> nat list list" where
  "hists_list h =
    [refatm_selatm h, refatm_diff_selres h, refatm_same_selres h, refres_diff_selatm h,
     refres_same_selatm h, refres_selatm_tot h, refres_diff_selres h, refres_same_selres h,
     refatm_selres_pair h, refres_selatm_pair h, refres_selres_pair h]"

definition bins_at :: "nat \<Rightarrow> hists \<Rightarrow> nat list" where
  "bins_at m h = map (\<lambda>a. bin a m) (hists_list h)"

text \<open>The part of the loop state that belongs to the reference residues.\<close>

definition res_part :: "frame_state \<Rightarrow> nat list \<times> nat list \<times> nat list \<times> nat list list \<times> nat list list \<times> bool list list \<times> bool list list" where
  "res_part s =
    (st_refres_diff_selatm s, st_refres_selatm_tot s, st_refres_diff_selres s,
     st_refres_selatm_pair s, st_refres_selres_pair s, st_selatm_unused s, st_selres_unused s)"

text \<open>The capacity hint after line 440: a non-positive value is replaced by the default.\<close>

definition hint :: "int \<Rightarrow> nat" where
  "hint expected_max_contacts =
    nat (if expected_max_contacts \<le> 0 then 16 else expected_max_contacts)"

text \<open>
  The end-to-end example of the specification: two reference atoms in singleton residues,
  three selection atoms in the residues \<open>{a, b}\<close> and \<open>{c}\<close>; the first reference atom
  is in contact with \<open>a\<close> and \<open>b\<close>, the second with nothing.  The universe has four
  residues, with the resids 1, 2, 10 and 20.
\<close>

definition example_resid :: "nat \<Rightarrow> int" where
  "example_resid r = (if r = 0 then 1 else if r = 1 then 2 else if r = 2 then 10 else 20)"

definition example_ref :: atom_group where
  "example_ref = \<lparr>resid_of = example_resid, resindices = [0, 1]\<rparr>"

definition example_sel :: atom_group where
  "example_sel = \<lparr>resid_of = example_resid, resindices = [2, 2, 3]\<rparr>"

definition example_contact :: "nat \<Rightarrow> nat \<Rightarrow> bool" where
  "example_contact i j = (i = 0 \<and> j < 2)"

text \<open>
  Two reference atoms in two different residues that carry the same resid 1, and two
  selection atoms in two further residues with that resid; reference atom \<open>i\<close> is in
  contact with selection atom \<open>i\<close> only.
\<close>

definition shared_resid :: "nat \<Rightarrow> int" where
  "shared_resid r = 1"

definition shared_ref :: atom_group where
  "shared_ref = \<lparr>resid_of = shared_resid, resindices = [0, 1]\<rparr>"

definition shared_sel :: atom_group where
  "shared_sel = \<lparr>resid_of = shared_resid, resindices = [2, 3]\<rparr>"

definition shared_contact :: "nat \<Rightarrow> nat \<Rightarrow> bool" where
  "shared_contact i j = (i = j)"

section \<open>Properties\<close>

subsection \<open>Arithmetic of the arrays\<close>

lemma u32_le: "u32 n \<le> n"
  by (simp add: u32_def)

lemma u32_id: "n < 4294967296 \<Longrightarrow> u32 n = n"
  by (simp add: u32_def)

lemma u32_lt: "u32 n < 4294967296"
  by (simp add: u32_def)

lemma length_nph_extend: "length (nph_extend a n) = max (length a) n"
  by (simp add: nph_extend_def)

lemma bin_nph_extend: "bin (nph_extend a n) m = bin a m"
  by (simp add: nph_extend_def bin_def nth_append)

lemma sum_list_nph_extend: "sum_list (nph_extend a n) = sum_list a"
  by (simp add: nph_extend_def)

lemma set_nph_extend: "set (nph_extend a n) \<subseteq> insert 0 (set a)"
  by (auto simp: nph_extend_def)

lemma length_bump: "length (bump h n) = max (length h) (n + 1)"
  by (simp add: bump_def Let_def length_nph_extend)

lemma bin_bump: "bin (bump h n) m = (if m = n then u32 (bin h n + 1) else bin h m)"
proof -
  have "n < length (nph_extend h (n + 1))" by (simp add: length_nph_extend)
  then show ?thesis
    using bin_nph_extend[of h "n + 1" m] bin_nph_extend[of h "n + 1" n]
    by (auto simp: bump_def Let_def bin_def)
qed

lemma sum_list_bump:
  assumes "sum_list h + 1 < 4294967296"
  shows "sum_list (bump h n) = sum_list h + 1"
proof -
  let ?h = "nph_extend h (n + 1)"
  have n: "n < length ?h" by (simp add: length_nph_extend)
  have le: "?h ! n \<le> sum_list ?h" using n by (rule elem_le_sum_list)
  have s: "sum_list ?h = sum_list h" by (rule sum_list_nph_extend)
  have "u32 (?h ! n + 1) = ?h ! n + 1" using le s assms by (intro u32_id) linarith
  then have "sum_list (bump h n) = sum_list ?h + (?h ! n + 1) - ?h ! n"
    using n by (simp add: bump_def Let_def sum_list_update)
  then show ?thesis using s by simp
qed

lemma fold_bump_sum:
  "sum_list h + length ks < 4294967296 \<Longrightarrow>
   sum_list (fold (\<lambda>i h. bump h (f i)) ks h) = sum_list h + length ks"
proof (induction ks arbitrary: h)
  case Nil
  then show ?case by simp
next
  case (Cons k ks)
  have "sum_list (bump h (f k)) = sum_list h + 1"
    using Cons.prems by (intro sum_list_bump) simp
  then show ?case using Cons.IH[of "bump h (f k)"] Cons.prems by simp
qed

lemma st_selatm_step:
  "st_refatm_selatm (step ref sel contact i s) =
   bump (st_refatm_selatm s) (length (atoms_around_point contact sel i))"
  by (simp add: step_def Let_def)

lemma st_diff_selres_step:
  "st_refatm_diff_selres (step ref sel contact i s) =
   bump (st_refatm_diff_selres s) (n_residues (near_group sel contact i))"
  by (simp add: step_def Let_def)

lemma st_selatm_run:
  "st_refatm_selatm (run_loop ref sel contact ks s) =
   fold (\<lambda>i h. bump h (length (atoms_around_point contact sel i))) ks (st_refatm_selatm s)"
  by (induction ks arbitrary: s) (simp_all add: run_loop_def st_selatm_step)

lemma st_diff_selres_run:
  "st_refatm_diff_selres (run_loop ref sel contact ks s) =
   fold (\<lambda>i h. bump h (n_residues (near_group sel contact i))) ks (st_refatm_diff_selres s)"
  by (induction ks arbitrary: s) (simp_all add: run_loop_def st_diff_selres_step)

lemma np_max_Max: "np_max xs = Max (insert 0 (set xs))"
  using Max.set_eq_fold[of 0 xs] by (simp add: np_max_def)

lemma np_max_ge: "x \<in> set xs \<Longrightarrow> x \<le> np_max xs"
  by (simp add: np_max_Max)

lemma length_bincount: "length (bincount xs) = (if xs = [] then 0 else np_max xs + 1)"
  by (simp add: bincount_def)

lemma bin_bincount: "bin (bincount xs) v = u32 (count_list xs v)"
proof (cases "v < np_max xs + 1 \<and> xs \<noteq> []")
  case True
  then show ?thesis by (simp add: bin_def bincount_def del: upt_Suc)
next
  case False
  then have "v \<notin> set xs" using np_max_ge[of v xs] by auto
  then have "count_list xs v = 0" by (simp add: count_list_0_iff)
  then show ?thesis using False by (auto simp: bin_def bincount_def u32_def)
qed

lemma sum_list_bincount:
  assumes "length xs < 4294967296"
  shows "sum_list (bincount xs) = length xs"
proof (cases "xs = []")
  case True
  then show ?thesis by (simp add: bincount_def)
next
  case False
  have c: "u32 (count_list xs v) = count_list xs v" for v
    using count_le_length[of xs v] assms by (intro u32_id) linarith
  have sub: "set xs \<subseteq> {0..<np_max xs + 1}"
    using np_max_ge[of _ xs] by (auto simp: less_Suc_eq_le)
  have "sum_list (bincount xs) = sum_list (map (count_list xs) [0..<np_max xs + 1])"
    using False by (simp add: bincount_def c del: upt_Suc)
  also have "\<dots> = sum (count_list xs) {0..<np_max xs + 1}"
    by (simp add: interv_sum_list_conv_sum_set_nat del: upt_Suc)
  also have "\<dots> = length xs"
    using sub by (intro sum_count_set) auto
  finally show ?thesis .
qed

lemma n_residues_le: "n_residues ag \<le> n_atoms ag"
  by (simp add: n_residues_def n_atoms_def length_remdups_leq)

lemma n_residues_pos: "n_atoms ag \<noteq> 0 \<Longrightarrow> 0 < n_residues ag"
  by (simp add: n_residues_def n_atoms_def)

lemma length_tot_step:
  "length (st_refres_selatm_tot (step ref sel contact i s)) = length (st_refres_selatm_tot s)"
  by (simp add: step_def Let_def)

lemma length_diff_selatm_step:
  "length (st_refres_diff_selatm (step ref sel contact i s)) = length (st_refres_diff_selatm s)"
  by (simp add: step_def Let_def)

lemma length_diff_selres_step:
  "length (st_refres_diff_selres (step ref sel contact i s)) = length (st_refres_diff_selres s)"
  by (simp add: step_def Let_def)

lemma length_refres_run:
  "length (st_refres_selatm_tot (run_loop ref sel contact ks s)) = length (st_refres_selatm_tot s)"
  "length (st_refres_diff_selatm (run_loop ref sel contact ks s)) = length (st_refres_diff_selatm s)"
  "length (st_refres_diff_selres (run_loop ref sel contact ks s)) = length (st_refres_diff_selres s)"
  by (induction ks arbitrary: s)
     (simp_all add: run_loop_def length_tot_step length_diff_selatm_step length_diff_selres_step)

lemma length_refres_final:
  "length (st_refres_selatm_tot (final_state ref sel contact e)) = n_residues ref"
  "length (st_refres_diff_selatm (final_state ref sel contact e)) = n_residues ref"
  "length (st_refres_diff_selres (final_state ref sel contact e)) = n_residues ref"
  by (simp_all add: final_state_def length_refres_run init_state_def)

lemma raw_hists_final:
  "raw_hists ref sel contact e =
    (let s = final_state ref sel contact e
     in \<lparr> refatm_selatm = st_refatm_selatm s,
          refatm_diff_selres = st_refatm_diff_selres s,
          refatm_same_selres = st_refatm_same_selres s,
          refres_diff_selatm = bincount (st_refres_diff_selatm s),
          refres_same_selatm = same_hist (n_residues ref) (st_refres_selatm_pair s),
          refres_selatm_tot = bincount (st_refres_selatm_tot s),
          refres_diff_selres = bincount (st_refres_diff_selres s),
          refres_same_selres = same_hist (n_residues ref) (st_refres_selres_pair s),
          refatm_selres_pair = st_refatm_selres_pair s,
          refres_selatm_pair = pair_hist (st_refres_selatm_pair s),
          refres_selres_pair = pair_hist (st_refres_selres_pair s) \<rparr>)"
  by (simp add: raw_hists_def final_state_def)

lemma contact_hist_normal:
  "n_atoms ref \<noteq> 0 \<Longrightarrow> n_atoms sel \<noteq> 0 \<Longrightarrow> 0 < cutoff \<Longrightarrow>
   contact_hist ref sel contact cutoff e = (False, normal_path ref sel contact (hint e))"
  by (simp add: contact_hist_def hint_def Let_def)

lemma normal_path_fields:
  "refatm_selatm (normal_path ref sel contact e) =
     nph_extend (st_refatm_selatm (final_state ref sel contact e)) (common_length (raw_hists ref sel contact e))"
  "refatm_diff_selres (normal_path ref sel contact e) =
     nph_extend (st_refatm_diff_selres (final_state ref sel contact e)) (common_length (raw_hists ref sel contact e))"
  "refatm_same_selres (normal_path ref sel contact e) =
     nph_extend (st_refatm_same_selres (final_state ref sel contact e)) (common_length (raw_hists ref sel contact e))"
  "refres_diff_selatm (normal_path ref sel contact e) =
     nph_extend (bincount (st_refres_diff_selatm (final_state ref sel contact e))) (common_length (raw_hists ref sel contact e))"
  "refres_same_selatm (normal_path ref sel contact e) =
     nph_extend (same_hist (n_residues ref) (st_refres_selatm_pair (final_state ref sel contact e))) (common_length (raw_hists ref sel contact e))"
  "refres_selatm_tot (normal_path ref sel contact e) =
     nph_extend (bincount (st_refres_selatm_tot (final_state ref sel contact e))) (common_length (raw_hists ref sel contact e))"
  "refres_diff_selres (normal_path ref sel contact e) =
     nph_extend (bincount (st_refres_diff_selres (final_state ref sel contact e))) (common_length (raw_hists ref sel contact e))"
  "refres_same_selres (normal_path ref sel contact e) =
     nph_extend (same_hist (n_residues ref) (st_refres_selres_pair (final_state ref sel contact e))) (common_length (raw_hists ref sel contact e))"
  "refatm_selres_pair (normal_path ref sel contact e) =
     nph_extend (st_refatm_selres_pair (final_state ref sel contact e)) (common_length (raw_hists ref sel contact e))"
  "refres_selatm_pair (normal_path ref sel contact e) =
     nph_extend (pair_hist (st_refres_selatm_pair (final_state ref sel contact e))) (common_length (raw_hists ref sel contact e))"
  "refres_selres_pair (normal_path ref sel contact e) =
     nph_extend (pair_hist (st_refres_selres_pair (final_state ref sel contact e))) (common_length (raw_hists ref sel contact e))"
  by (simp_all add: normal_path_def extend_all_def raw_hists_final Let_def)

lemma sum_list_replicate_0: "sum_list (replicate n (0::nat)) = 0"
  by (induction n) simp_all

lemma sum_selatm_final:
  assumes "n_atoms ref < 4294967296"
  shows "sum_list (st_refatm_selatm (final_state ref sel contact e)) = n_atoms ref"
    and "sum_list (st_refatm_diff_selres (final_state ref sel contact e)) = n_atoms ref"
proof -
  have p: "sum_list (replicate e (0::nat)) + length [0..<n_atoms ref] < 4294967296"
    using assms by (simp add: sum_list_replicate_0)
  show "sum_list (st_refatm_selatm (final_state ref sel contact e)) = n_atoms ref"
    using fold_bump_sum[OF p] by (simp add: final_state_def st_selatm_run init_state_def sum_list_replicate_0)
  show "sum_list (st_refatm_diff_selres (final_state ref sel contact e)) = n_atoms ref"
    using fold_bump_sum[OF p] by (simp add: final_state_def st_diff_selres_run init_state_def sum_list_replicate_0)
qed

subsection \<open>Sums of the histograms\<close>

text \<open>
  Claim C3.  On the normal path (positive cutoff, non-empty reference and selection
  groups) the sums of \<open>refatm_selatm\<close> and of \<open>refatm_diff_selres\<close> are the number of
  reference atoms, and the sums of \<open>refres_diff_selatm\<close>, \<open>refres_selatm_tot\<close> and
  \<open>refres_diff_selres\<close> are the number of reference residues.  The counters are
  \<open>uint32\<close>, so the group is taken to have fewer than \<open>2 ^ 32\<close> atoms.
\<close>

theorem sums_equal_group_sizes:
  assumes "n_atoms ref \<noteq> 0" and "n_atoms sel \<noteq> 0" and "0 < cutoff"
    and "n_atoms ref < 4294967296"
  shows "sum_list (refatm_selatm (snd (contact_hist ref sel contact cutoff e))) = n_atoms ref
       \<and> sum_list (refatm_diff_selres (snd (contact_hist ref sel contact cutoff e))) = n_atoms ref
       \<and> sum_list (refres_diff_selatm (snd (contact_hist ref sel contact cutoff e))) = n_residues ref
       \<and> sum_list (refres_selatm_tot (snd (contact_hist ref sel contact cutoff e))) = n_residues ref
       \<and> sum_list (refres_diff_selres (snd (contact_hist ref sel contact cutoff e))) = n_residues ref"
proof -
  have r: "n_residues ref < 4294967296" using n_residues_le[of ref] assms(4) by linarith
  have c: "snd (contact_hist ref sel contact cutoff e) = normal_path ref sel contact (hint e)"
    using assms by (simp add: contact_hist_normal)
  have 1: "sum_list (refatm_selatm (normal_path ref sel contact (hint e))) = n_atoms ref"
    using assms(4) by (simp add: normal_path_fields sum_list_nph_extend sum_selatm_final)
  have 2: "sum_list (refatm_diff_selres (normal_path ref sel contact (hint e))) = n_atoms ref"
    using assms(4) by (simp add: normal_path_fields sum_list_nph_extend sum_selatm_final)
  have 3: "sum_list (refres_diff_selatm (normal_path ref sel contact (hint e))) = n_residues ref"
    using r by (simp add: normal_path_fields sum_list_nph_extend sum_list_bincount length_refres_final)
  have 4: "sum_list (refres_selatm_tot (normal_path ref sel contact (hint e))) = n_residues ref"
    using r by (simp add: normal_path_fields sum_list_nph_extend sum_list_bincount length_refres_final)
  have 5: "sum_list (refres_diff_selres (normal_path ref sel contact (hint e))) = n_residues ref"
    using r by (simp add: normal_path_fields sum_list_nph_extend sum_list_bincount length_refres_final)
  show ?thesis unfolding c using 1 2 3 4 5 by blast
qed

theorem sums_equal_group_sizes_witness:
  "n_atoms example_ref \<noteq> 0 \<and> n_atoms example_sel \<noteq> 0 \<and> (0::real) < 1
   \<and> n_atoms example_ref < 4294967296
   \<and> sum_list (refatm_selatm (snd (contact_hist example_ref example_sel example_contact 1 16))) = 2
   \<and> sum_list (refatm_diff_selres (snd (contact_hist example_ref example_sel example_contact 1 16))) = 2
   \<and> sum_list (refres_diff_selatm (snd (contact_hist example_ref example_sel example_contact 1 16))) = 2
   \<and> sum_list (refres_selatm_tot (snd (contact_hist example_ref example_sel example_contact 1 16))) = 2
   \<and> sum_list (refres_diff_selres (snd (contact_hist example_ref example_sel example_contact 1 16))) = 2"
  using sums_equal_group_sizes[of example_ref example_sel 1 example_contact 16]
  by (simp add: n_atoms_def n_residues_def unique_def example_ref_def example_sel_def)

subsection \<open>Index-array updates\<close>

lemma length_fold_update: "length (fold (\<lambda>j b. b[j := f j b]) idx a) = length a"
  by (induction idx arbitrary: a) simp_all

lemma nth_fold_update:
  "m < length b \<Longrightarrow> fold (\<lambda>j b. b[j := f j]) idx b ! m = (if m \<in> set idx then f m else b ! m)"
proof (induction idx arbitrary: b)
  case Nil
  then show ?case by simp
next
  case (Cons j idx)
  then show ?case by (cases "m = j") simp_all
qed

lemma length_fancy_add: "length (fancy_add a idx v) = length a"
  by (simp add: fancy_add_def length_fold_update)

lemma nth_fancy_add:
  "m < length a \<Longrightarrow> fancy_add a idx v ! m = (if m \<in> set idx then u32 (a ! m + v) else a ! m)"
  by (simp add: fancy_add_def nth_fold_update)

lemma bin_fancy_add:
  "bin (fancy_add a idx v) m = (if m \<in> set idx \<and> m < length a then u32 (bin a m + v) else bin a m)"
  by (simp add: bin_def length_fancy_add nth_fancy_add)

lemma length_mark_used: "length (mark_used msk idx) = length msk"
  by (simp add: mark_used_def length_fold_update)

lemma nth_mark_used:
  "m < length msk \<Longrightarrow> mark_used msk idx ! m = (if m \<in> set idx then False else msk ! m)"
  by (simp add: mark_used_def nth_fold_update)

lemma length_add_at: "length (add_at a idx vs) = length a"
proof -
  have "length (fold (\<lambda>jv b. b[fst jv := u32 (b ! fst jv + snd jv)]) ps a) = length a" for ps
    by (induction ps arbitrary: a) simp_all
  then show ?thesis by (simp add: add_at_def)
qed

lemma bin_add_at_other:
  assumes "m \<notin> set idx"
  shows "bin (add_at a idx vs) m = bin a m"
proof -
  have "m \<notin> fst ` set ps \<Longrightarrow>
        bin (fold (\<lambda>jv b. b[fst jv := u32 (b ! fst jv + snd jv)]) ps a) m = bin a m" for ps
  proof (induction ps arbitrary: a)
    case Nil
    then show ?case by simp
  next
    case (Cons p ps)
    have "bin (a[fst p := u32 (a ! fst p + snd p)]) m = bin a m"
      using Cons.prems by (auto simp: bin_def)
    then show ?case using Cons by simp
  qed
  moreover have "m \<notin> fst ` set (zip idx vs)"
    using assms by (auto dest: set_zip_leftD)
  ultimately show ?thesis by (simp add: add_at_def)
qed

subsection \<open>The multiplicities of the residues around an atom\<close>

lemma set_unique: "set (unique xs) = set xs"
  by (simp add: unique_def)

lemma unique_Nil_iff: "unique xs = [] \<longleftrightarrow> xs = []"
  by (metis set_unique set_empty)

lemma set_unique_counts: "set (unique_counts xs) = (\<lambda>r. count_list xs r) ` set xs"
  by (simp add: unique_counts_def set_unique)

lemma unique_counts_pos: "0 \<notin> set (unique_counts xs)"
  by (auto simp: set_unique_counts count_list_0_iff)

lemma unique_counts_le_max: "m \<in> set (unique_counts xs) \<Longrightarrow> m < np_max (unique_counts xs) + 1"
  using np_max_ge[of m "unique_counts xs"] by simp

subsection \<open>Bin 0 of the pair histograms\<close>

lemma st_selres_pair_step:
  "st_refatm_selres_pair (step ref sel contact i s) =
    (if unique (near_resids sel contact i) = [] then st_refatm_selres_pair s
     else add_at (nph_extend (st_refatm_selres_pair s) (np_max (unique_counts (near_resids sel contact i)) + 1))
            (unique_counts (near_resids sel contact i))
            (replicate (length (unique_counts (near_resids sel contact i))) 1))"
  by (simp add: step_def Let_def)

lemma bin0_selres_pair_step:
  "bin (st_refatm_selres_pair (step ref sel contact i s)) 0 = bin (st_refatm_selres_pair s) 0"
  by (simp add: st_selres_pair_step bin_add_at_other unique_counts_pos bin_nph_extend)

lemma bin0_selres_pair_run:
  "bin (st_refatm_selres_pair (run_loop ref sel contact ks s)) 0 = bin (st_refatm_selres_pair s) 0"
  by (induction ks arbitrary: s) (simp_all add: run_loop_def bin0_selres_pair_step)

lemma bin0_selres_pair_final: "bin (st_refatm_selres_pair (final_state ref sel contact e)) 0 = 0"
proof -
  have "bin (st_refatm_selres_pair (init_state ref sel e)) 0 = 0"
    by (simp add: init_state_def bin_def)
  then show ?thesis
    unfolding final_state_def bin0_selres_pair_run .
qed

lemma bin0_pair_hist: "bin (pair_hist m) 0 = 0"
  by (simp add: pair_hist_def bin_def)

lemma length_fold_bump_ge: "length h \<le> length (fold (\<lambda>i h. bump h (f i)) ks h)"
proof (induction ks arbitrary: h)
  case Nil
  then show ?case by simp
next
  case (Cons k ks)
  have "length h \<le> length (bump h (f k))" by (simp add: length_bump)
  also have "\<dots> \<le> length (fold (\<lambda>i h. bump h (f i)) ks (bump h (f k)))" by (rule Cons.IH)
  finally show ?case by simp
qed

lemma hint_pos: "0 < hint e"
  by (simp add: hint_def)

lemma length_selatm_final: "e \<le> length (st_refatm_selatm (final_state ref sel contact e))"
  using length_fold_bump_ge[of "replicate e 0"]
  by (simp add: final_state_def st_selatm_run init_state_def)

lemma common_length_ge: "length (refatm_selatm h) \<le> common_length h"
  unfolding common_length_def by (rule max.cobounded1)

lemma common_length_raw_ge: "e \<le> common_length (raw_hists ref sel contact e)"
proof -
  have "e \<le> length (refatm_selatm (raw_hists ref sel contact e))"
    by (simp add: raw_hists_final Let_def length_selatm_final)
  then show ?thesis using common_length_ge[of "raw_hists ref sel contact e"] by linarith
qed

lemma nth0_nph_extend: "0 < n \<Longrightarrow> nph_extend a n ! 0 = bin a 0"
  by (cases a) (simp_all add: nph_extend_def bin_def)

lemma pair_bin0_normal_path:
  assumes "0 < e"
  shows "refatm_selres_pair (normal_path ref sel contact e) ! 0 = 0"
    and "refres_selatm_pair (normal_path ref sel contact e) ! 0 = 0"
    and "refres_selres_pair (normal_path ref sel contact e) ! 0 = 0"
proof -
  have L: "0 < common_length (raw_hists ref sel contact e)"
    using common_length_raw_ge[of e ref sel contact] assms by linarith
  show "refatm_selres_pair (normal_path ref sel contact e) ! 0 = 0"
    by (simp add: normal_path_fields nth0_nph_extend[OF L] bin0_selres_pair_final)
  show "refres_selatm_pair (normal_path ref sel contact e) ! 0 = 0"
    by (simp add: normal_path_fields nth0_nph_extend[OF L] bin0_pair_hist)
  show "refres_selres_pair (normal_path ref sel contact e) ! 0 = 0"
    by (simp add: normal_path_fields nth0_nph_extend[OF L] bin0_pair_hist)
qed

lemma contact_hist_empty_ref:
  "n_atoms ref = 0 \<Longrightarrow> contact_hist ref sel contact cutoff e = (cutoff \<le> 0, const_hists 0 0 0)"
  by (simp add: contact_hist_def Let_def)

lemma contact_hist_trivial:
  "n_atoms ref \<noteq> 0 \<Longrightarrow> n_atoms sel = 0 \<or> cutoff \<le> 0 \<Longrightarrow>
   contact_hist ref sel contact cutoff e = (cutoff \<le> 0, const_hists (n_atoms ref) (n_residues ref) 0)"
  by (simp add: contact_hist_def Let_def)

text \<open>
  Claim C4.  For every input, bin 0 of each of the three pair histograms returned by
  \<open>contact_hist\<close> (\<open>refatm_selres_pair\<close>, \<open>refres_selatm_pair\<close>,
  \<open>refres_selres_pair\<close>) is 0.  Bin 0 of \<open>refatm_selres_pair\<close> is never written: the
  multiplicities at which it is increased are at least 1.
\<close>

theorem pair_bin0_zero:
  "refatm_selres_pair (snd (contact_hist ref sel contact cutoff e)) ! 0 = 0
   \<and> refres_selatm_pair (snd (contact_hist ref sel contact cutoff e)) ! 0 = 0
   \<and> refres_selres_pair (snd (contact_hist ref sel contact cutoff e)) ! 0 = 0"
proof (cases "n_atoms ref \<noteq> 0 \<and> n_atoms sel \<noteq> 0 \<and> 0 < cutoff")
  case True
  then have c: "snd (contact_hist ref sel contact cutoff e) = normal_path ref sel contact (hint e)"
    by (simp add: contact_hist_normal)
  show ?thesis unfolding c using pair_bin0_normal_path[OF hint_pos] by blast
next
  case False
  then consider "n_atoms ref = 0" | "n_atoms ref \<noteq> 0" "n_atoms sel = 0 \<or> cutoff \<le> 0"
    by fastforce
  then show ?thesis
  proof cases
    case 1
    then show ?thesis by (simp add: contact_hist_empty_ref const_hists_def)
  next
    case 2
    then show ?thesis by (simp add: contact_hist_trivial const_hists_def)
  qed
qed

subsection \<open>The trivial result\<close>

text \<open>
  Claim C6.  When the reference group is not empty and the cutoff is not positive or the
  selection group is empty, \<open>contact_hist\<close> returns (the model is a total function, there
  is no raise on this path) the result with everything in bin 0: the three atom-level
  histograms are \<open>[n_atoms]\<close>, the five residue-level histograms are \<open>[n_residues]\<close>, the
  three pair histograms are \<open>[0]\<close>; the warning is emitted exactly when the cutoff is not
  positive.
\<close>

theorem trivial_result:
  assumes "n_atoms ref \<noteq> 0" and "cutoff \<le> 0 \<or> n_atoms sel = 0"
  shows "contact_hist ref sel contact cutoff e =
    (cutoff \<le> 0,
     \<lparr> refatm_selatm = [n_atoms ref], refatm_diff_selres = [n_atoms ref],
       refatm_same_selres = [n_atoms ref],
       refres_diff_selatm = [n_residues ref], refres_same_selatm = [n_residues ref],
       refres_selatm_tot = [n_residues ref], refres_diff_selres = [n_residues ref],
       refres_same_selres = [n_residues ref],
       refatm_selres_pair = [0], refres_selatm_pair = [0], refres_selres_pair = [0] \<rparr>)"
proof -
  have "contact_hist ref sel contact cutoff e =
          (cutoff \<le> 0, const_hists (n_atoms ref) (n_residues ref) 0)"
    using assms by (intro contact_hist_trivial) auto
  then show ?thesis by (simp add: const_hists_def)
qed

theorem trivial_result_witness:
  "n_atoms example_ref \<noteq> 0 \<and> ((0::real) \<le> 0 \<or> n_atoms example_sel = 0)
   \<and> contact_hist example_ref example_sel example_contact 0 16 =
    (True,
     \<lparr> refatm_selatm = [2], refatm_diff_selres = [2], refatm_same_selres = [2],
       refres_diff_selatm = [2], refres_same_selatm = [2],
       refres_selatm_tot = [2], refres_diff_selres = [2], refres_same_selres = [2],
       refatm_selres_pair = [0], refres_selatm_pair = [0], refres_selres_pair = [0] \<rparr>)"
proof -
  have a: "n_atoms example_ref \<noteq> 0" by (simp add: n_atoms_def example_ref_def)
  have b: "(0::real) \<le> 0 \<or> n_atoms example_sel = 0" by simp
  have na: "n_atoms example_ref = 2" by (simp add: n_atoms_def example_ref_def)
  have nr: "n_residues example_ref = 2" by (simp add: n_residues_def unique_def example_ref_def)
  show ?thesis using trivial_result[OF a b, of example_contact 16] a b by (simp add: na nr)
qed

subsection \<open>The histogram \<open>refatm_same_selres\<close> along the loop\<close>

lemma state_after_0: "state_after ref sel contact e 0 = init_state ref sel e"
  by (simp add: state_after_def run_loop_def)

lemma state_after_Suc:
  "state_after ref sel contact e (Suc k) = step ref sel contact k (state_after ref sel contact e k)"
  by (simp add: state_after_def run_loop_def)

lemma final_state_after: "final_state ref sel contact e = state_after ref sel contact e (n_atoms ref)"
  by (simp add: final_state_def state_after_def)

lemma st_same_selres_step:
  "st_refatm_same_selres (step ref sel contact i s) =
    (if unique (near_resids sel contact i) = [] then
       (st_refatm_same_selres s)[0 := u32 (st_refatm_same_selres s ! 0 + 1)]
     else fancy_add (nph_extend (st_refatm_same_selres s) (np_max (unique_counts (near_resids sel contact i)) + 1))
            (unique_counts (near_resids sel contact i)) 1)"
  by (simp add: step_def Let_def)

lemma length_same_selres_step:
  "length (st_refatm_same_selres s) \<le> length (st_refatm_same_selres (step ref sel contact i s))"
  by (simp add: st_same_selres_step length_fancy_add length_nph_extend)

lemma length_same_selres_after:
  "e \<le> length (st_refatm_same_selres (state_after ref sel contact e k))"
proof (induction k)
  case 0
  then show ?case by (simp add: state_after_0 init_state_def)
next
  case (Suc k)
  then show ?case
    using length_same_selres_step[of "state_after ref sel contact e k" ref sel contact k]
    by (simp add: state_after_Suc)
qed

lemma bin_same_selres_step:
  assumes "st_refatm_same_selres s \<noteq> []"
  shows "bin (st_refatm_same_selres (step ref sel contact i s)) m =
    (if near_resids sel contact i = [] then
       (if m = 0 then u32 (bin (st_refatm_same_selres s) 0 + 1) else bin (st_refatm_same_selres s) m)
     else if m \<in> (\<lambda>r. count_list (near_resids sel contact i) r) ` set (near_resids sel contact i)
       then u32 (bin (st_refatm_same_selres s) m + 1)
       else bin (st_refatm_same_selres s) m)"
proof (cases "near_resids sel contact i = []")
  case True
  then have "st_refatm_same_selres (step ref sel contact i s) =
      (st_refatm_same_selres s)[0 := u32 (st_refatm_same_selres s ! 0 + 1)]"
    by (simp add: st_same_selres_step unique_Nil_iff)
  then show ?thesis using True assms by (auto simp: bin_def)
next
  case False
  let ?cs = "unique_counts (near_resids sel contact i)"
  let ?h = "nph_extend (st_refatm_same_selres s) (np_max ?cs + 1)"
  have st: "st_refatm_same_selres (step ref sel contact i s) = fancy_add ?h ?cs 1"
    using False by (simp add: st_same_selres_step unique_Nil_iff)
  have in_range: "m \<in> set ?cs \<Longrightarrow> m < length ?h"
    using unique_counts_le_max[of m "near_resids sel contact i"] by (simp add: length_nph_extend)
  show ?thesis
    using False in_range
    by (auto simp: st bin_fancy_add bin_nph_extend set_unique_counts)
qed

lemma bin_same_selres_after_le:
  assumes "0 < e"
  shows "bin (st_refatm_same_selres (state_after ref sel contact e k)) m \<le> k"
proof (induction k arbitrary: m)
  case 0
  then show ?case by (simp add: state_after_0 init_state_def bin_def)
next
  case (Suc k)
  let ?s = "state_after ref sel contact e k"
  have ne: "st_refatm_same_selres ?s \<noteq> []"
    using length_same_selres_after[of e ref sel contact k] assms by auto
  have "bin (st_refatm_same_selres (step ref sel contact k ?s)) m
        \<le> bin (st_refatm_same_selres ?s) m + 1"
    using u32_le[of "bin (st_refatm_same_selres ?s) m + 1"]
      u32_le[of "bin (st_refatm_same_selres ?s) 0 + 1"]
    by (auto simp: bin_same_selres_step[OF ne])
  then show ?case using Suc.IH[of m] by (simp add: state_after_Suc)
qed



subsection \<open>The histograms of the pair-count matrices\<close>

lemma length_same_hist: "length (same_hist nres m) = np_max (concat m) + 1"
  by (simp add: same_hist_def Let_def length_fold_update)

lemma nth_same_hist:
  assumes "n < np_max (concat m) + 1"
  shows "same_hist nres m ! n =
    (if n = 0 then u32_sub (u32 nres) (rows_nonzero m) else u32 (rows_with m n))"
proof -
  let ?mc = "np_max (concat m) + 1"
  let ?h = "fold (\<lambda>n h. h[n := u32 (rows_with m n)]) [1..<?mc] (replicate ?mc 0)"
  have len: "length ?h = ?mc" by (simp add: length_fold_update)
  have nth: "?h ! n = (if n \<in> set [1..<?mc] then u32 (rows_with m n) else replicate ?mc 0 ! n)"
    using assms by (intro nth_fold_update) simp
  have sh: "same_hist nres m = ?h[0 := u32 nres, 0 := u32_sub (?h[0 := u32 nres] ! 0) (rows_nonzero m)]"
    by (simp add: same_hist_def Let_def)
  show ?thesis
  proof (cases "n = 0")
    case True
    then show ?thesis using len by (simp add: sh)
  next
    case False
    then have "same_hist nres m ! n = ?h ! n" by (simp add: sh)
    then show ?thesis using False assms nth by simp
  qed
qed

lemma rows_with_le: "rows_with m n \<le> length m"
  by (simp add: rows_with_def)

lemma rows_nonzero_le: "rows_nonzero m \<le> length m"
  by (simp add: rows_nonzero_def)

lemma u32_sub_exact:
  assumes "k \<le> n" and "n < 4294967296"
  shows "u32_sub (u32 n) k = n - k"
proof -
  have "u32 n = n" "u32 k = k" using assms by (simp_all add: u32_def)
  moreover have "(n + 4294967296 - k) mod 4294967296 = n - k"
    using assms by (simp add: mod_if)
  ultimately show ?thesis by (simp add: u32_sub_def)
qed

lemma u32_sub_le:
  assumes "k \<le> n"
  shows "u32_sub (u32 n) k \<le> n"
proof (cases "n < 4294967296")
  case True
  then show ?thesis using u32_sub_exact[OF assms] by simp
next
  case False
  have "u32_sub (u32 n) k < 4294967296" by (simp add: u32_sub_def)
  then show ?thesis using False by linarith
qed

lemma same_hist_le:
  assumes "x \<in> set (same_hist (length m) m)"
  shows "x \<le> length m"
proof -
  obtain n where n: "n < np_max (concat m) + 1" and x: "x = same_hist (length m) m ! n"
    using assms by (auto simp: in_set_conv_nth length_same_hist)
  show ?thesis
  proof (cases "n = 0")
    case True
    then show ?thesis using x n u32_sub_le[OF rows_nonzero_le[of m]] by (simp add: nth_same_hist)
  next
    case False
    then have "x = u32 (rows_with m n)" using x n by (simp add: nth_same_hist)
    then show ?thesis using u32_le[of "rows_with m n"] rows_with_le[of m n] by linarith
  qed
qed

lemma st_selatm_pair_step:
  "st_refres_selatm_pair (step ref sel contact i s) =
    (st_refres_selatm_pair s)[searchsorted (unique (resids ref)) (resids ref ! i) :=
       fancy_add (st_refres_selatm_pair s ! searchsorted (unique (resids ref)) (resids ref ! i))
         (atoms_around_point contact sel i) 1]"
  by (simp add: step_def Let_def)

lemma st_selres_pair_mat_step:
  "st_refres_selres_pair (step ref sel contact i s) =
    (st_refres_selres_pair s)[searchsorted (unique (resids ref)) (resids ref ! i) :=
       add_at (st_refres_selres_pair s ! searchsorted (unique (resids ref)) (resids ref ! i))
         (intersect1d_indices (unique (resids sel)) (unique (near_resids sel contact i)))
         (unique_counts (near_resids sel contact i))]"
  by (simp add: step_def Let_def)

lemma shape_update:
  assumes "\<forall>row \<in> set m. length row = c" and "r < length m \<longrightarrow> length x = c"
  shows "\<forall>row \<in> set (m[r := x]). length row = c"
proof (cases "r < length m")
  case True
  then show ?thesis using assms set_update_subset_insert[of m r x] by auto
next
  case False
  then have "m[r := x] = m" by (intro list_update_beyond) simp
  then show ?thesis using assms by simp
qed

lemma shape_selatm_pair_step:
  assumes "\<forall>row \<in> set (st_refres_selatm_pair s). length row = c"
  shows "\<forall>row \<in> set (st_refres_selatm_pair (step ref sel contact i s)). length row = c"
  unfolding st_selatm_pair_step
  using assms by (intro shape_update) (auto simp: length_fancy_add)

lemma shape_selres_pair_step:
  assumes "\<forall>row \<in> set (st_refres_selres_pair s). length row = c"
  shows "\<forall>row \<in> set (st_refres_selres_pair (step ref sel contact i s)). length row = c"
  unfolding st_selres_pair_mat_step
  using assms by (intro shape_update) (auto simp: length_add_at)

lemma shape_pair_after:
  "length (st_refres_selatm_pair (state_after ref sel contact e k)) = n_residues ref"
  "\<forall>row \<in> set (st_refres_selatm_pair (state_after ref sel contact e k)). length row = n_atoms sel"
  "length (st_refres_selres_pair (state_after ref sel contact e k)) = n_residues ref"
  "\<forall>row \<in> set (st_refres_selres_pair (state_after ref sel contact e k)). length row = n_residues sel"
proof (induction k)
  case 0
  {
    case 1 show ?case by (simp add: state_after_0 init_state_def)
  next
    case 2 show ?case by (simp add: state_after_0 init_state_def)
  next
    case 3 show ?case by (simp add: state_after_0 init_state_def)
  next
    case 4 show ?case by (simp add: state_after_0 init_state_def)
  }
next
  case (Suc k)
  {
    case 1 show ?case using Suc(1) by (simp add: state_after_Suc st_selatm_pair_step)
  next
    case 2 show ?case unfolding state_after_Suc by (rule shape_selatm_pair_step[OF Suc(2)])
  next
    case 3 show ?case using Suc(3) by (simp add: state_after_Suc st_selres_pair_mat_step)
  next
    case 4 show ?case unfolding state_after_Suc by (rule shape_selres_pair_step[OF Suc(4)])
  }
qed

lemma shape_pair_final:
  "length (st_refres_selatm_pair (final_state ref sel contact e)) = n_residues ref"
  "\<forall>row \<in> set (st_refres_selatm_pair (final_state ref sel contact e)). length row = n_atoms sel"
  "length (st_refres_selres_pair (final_state ref sel contact e)) = n_residues ref"
  "\<forall>row \<in> set (st_refres_selres_pair (final_state ref sel contact e)). length row = n_residues sel"
  unfolding final_state_after by (rule shape_pair_after)+

lemma set_nph_extend_le: "\<forall>x \<in> set a. x \<le> n \<Longrightarrow> \<forall>x \<in> set (nph_extend a l). x \<le> (n::nat)"
  using set_nph_extend[of a l] by auto

lemma same_selres_final_le:
  assumes "0 < e"
  shows "\<forall>x \<in> set (st_refatm_same_selres (final_state ref sel contact e)). x \<le> n_atoms ref"
proof
  fix x assume "x \<in> set (st_refatm_same_selres (final_state ref sel contact e))"
  then obtain j where "j < length (st_refatm_same_selres (final_state ref sel contact e))"
    and "x = st_refatm_same_selres (final_state ref sel contact e) ! j"
    by (auto simp: in_set_conv_nth)
  then have "x = bin (st_refatm_same_selres (final_state ref sel contact e)) j"
    by (simp add: bin_def)
  then show "x \<le> n_atoms ref"
    using bin_same_selres_after_le[OF assms, of ref sel contact "n_atoms ref" j]
    by (simp add: final_state_after)
qed

lemma bin_le_of_set: "\<forall>x \<in> set h. x \<le> (n::nat) \<Longrightarrow> bin h m \<le> n"
  by (simp add: bin_def)

text \<open>
  Claim C10.  On the normal path no bin of a "same" histogram exceeds the number of
  reference units of its granularity: every bin of \<open>refatm_same_selres\<close> is at most the
  number of reference atoms, every bin of \<open>refres_same_selatm\<close> and of
  \<open>refres_same_selres\<close> is at most the number of reference residues.
\<close>

theorem same_entries_bounded:
  assumes "n_atoms ref \<noteq> 0" and "n_atoms sel \<noteq> 0" and "0 < cutoff"
  shows "bin (refatm_same_selres (snd (contact_hist ref sel contact cutoff e))) m \<le> n_atoms ref
       \<and> bin (refres_same_selatm (snd (contact_hist ref sel contact cutoff e))) m \<le> n_residues ref
       \<and> bin (refres_same_selres (snd (contact_hist ref sel contact cutoff e))) m \<le> n_residues ref"
proof -
  have c: "snd (contact_hist ref sel contact cutoff e) = normal_path ref sel contact (hint e)"
    using assms by (simp add: contact_hist_normal)
  have 1: "\<forall>x \<in> set (refatm_same_selres (normal_path ref sel contact (hint e))). x \<le> n_atoms ref"
    unfolding normal_path_fields
    by (rule set_nph_extend_le[OF same_selres_final_le[OF hint_pos]])
  have a: "\<forall>x \<in> set (same_hist (n_residues ref) (st_refres_selatm_pair (final_state ref sel contact (hint e)))).
             x \<le> n_residues ref"
    using same_hist_le[of _ "st_refres_selatm_pair (final_state ref sel contact (hint e))"]
    by (simp add: shape_pair_final)
  have 2: "\<forall>x \<in> set (refres_same_selatm (normal_path ref sel contact (hint e))). x \<le> n_residues ref"
    unfolding normal_path_fields by (rule set_nph_extend_le[OF a])
  have b: "\<forall>x \<in> set (same_hist (n_residues ref) (st_refres_selres_pair (final_state ref sel contact (hint e)))).
             x \<le> n_residues ref"
    using same_hist_le[of _ "st_refres_selres_pair (final_state ref sel contact (hint e))"]
    by (simp add: shape_pair_final)
  have 3: "\<forall>x \<in> set (refres_same_selres (normal_path ref sel contact (hint e))). x \<le> n_residues ref"
    unfolding normal_path_fields by (rule set_nph_extend_le[OF b])
  show ?thesis unfolding c using bin_le_of_set[OF 1] bin_le_of_set[OF 2] bin_le_of_set[OF 3] by blast
qed

subsection \<open>The threshold scan\<close>

lemma rows_with_card:
  assumes "\<forall>row \<in> set m. length row = c"
  shows "rows_with m n = card {r. r < length m \<and> (\<exists>j<c. m ! r ! j = n)}"
proof -
  have "(\<exists>x \<in> set (m ! i). x = n) \<longleftrightarrow> (\<exists>j<c. m ! i ! j = n)" if "i < length m" for i
  proof -
    have "length (m ! i) = c" using assms that by simp
    then show ?thesis by (auto simp: in_set_conv_nth)
  qed
  then have "{i. i < length m \<and> (\<exists>x \<in> set (m ! i). x = n)} = {r. r < length m \<and> (\<exists>j<c. m ! r ! j = n)}"
    by blast
  then show ?thesis by (simp add: rows_with_def length_filter_conv_card)
qed

lemma rows_nonzero_card:
  assumes "\<forall>row \<in> set m. length row = c"
  shows "rows_nonzero m = card {r. r < length m \<and> (\<exists>j<c. m ! r ! j \<noteq> 0)}"
proof -
  have "(\<exists>x \<in> set (m ! i). x \<noteq> 0) \<longleftrightarrow> (\<exists>j<c. m ! i ! j \<noteq> 0)" if "i < length m" for i
  proof -
    have "length (m ! i) = c" using assms that by simp
    then show ?thesis by (metis in_set_conv_nth)
  qed
  then have "{i. i < length m \<and> (\<exists>x \<in> set (m ! i). x \<noteq> 0)} = {r. r < length m \<and> (\<exists>j<c. m ! r ! j \<noteq> 0)}"
    by blast
  then show ?thesis by (simp add: rows_nonzero_def length_filter_conv_card)
qed

lemma nth_nph_extend: "n < length a \<Longrightarrow> nph_extend a l ! n = a ! n"
  by (simp add: nph_extend_def nth_append)

lemma same_hist_scan:
  assumes "\<forall>row \<in> set m. length row = c" and "length m < 4294967296"
  shows "1 \<le> n \<and> n \<le> np_max (concat m) \<longrightarrow>
           nph_extend (same_hist (length m) m) l ! n = card {r. r < length m \<and> (\<exists>j<c. m ! r ! j = n)}"
    and "nph_extend (same_hist (length m) m) l ! 0 =
           length m - card {r. r < length m \<and> (\<exists>j<c. m ! r ! j \<noteq> 0)}"
proof -
  show "1 \<le> n \<and> n \<le> np_max (concat m) \<longrightarrow>
           nph_extend (same_hist (length m) m) l ! n = card {r. r < length m \<and> (\<exists>j<c. m ! r ! j = n)}"
  proof
    assume n: "1 \<le> n \<and> n \<le> np_max (concat m)"
    then have lt: "n < np_max (concat m) + 1" by simp
    have "u32 (rows_with m n) = rows_with m n"
      using rows_with_le[of m n] assms(2) by (intro u32_id) linarith
    then have "same_hist (length m) m ! n = rows_with m n"
      using n lt by (simp add: nth_same_hist)
    then show "nph_extend (same_hist (length m) m) l ! n = card {r. r < length m \<and> (\<exists>j<c. m ! r ! j = n)}"
      using lt by (simp add: nth_nph_extend length_same_hist rows_with_card[OF assms(1)])
  qed
  have "same_hist (length m) m ! 0 = length m - rows_nonzero m"
    using u32_sub_exact[OF rows_nonzero_le[of m] assms(2)] by (simp add: nth_same_hist)
  then show "nph_extend (same_hist (length m) m) l ! 0 =
           length m - card {r. r < length m \<and> (\<exists>j<c. m ! r ! j \<noteq> 0)}"
    by (simp add: nth_nph_extend length_same_hist rows_nonzero_card[OF assms(1)])
qed

text \<open>
  Claim C5.  On the normal path the residue-level "same" histograms are the threshold
  scan of their pair-count matrix (the matrix of the state after the loop): for every
  \<open>n\<close> from 1 to the maximum of the matrix, bin \<open>n\<close> is the number of reference residues
  with a column equal to \<open>n\<close> in their row, and bin 0 is the number of reference residues
  minus the number of those with a nonzero entry in their row.
\<close>

theorem same_hist_threshold_scan:
  assumes "n_atoms ref \<noteq> 0" and "n_atoms sel \<noteq> 0" and "0 < cutoff"
    and "n_atoms ref < 4294967296"
  shows "(1 \<le> n \<and> n \<le> np_max (concat (st_refres_selatm_pair (final_state ref sel contact (hint e)))) \<longrightarrow>
            refres_same_selatm (snd (contact_hist ref sel contact cutoff e)) ! n =
            card {r. r < n_residues ref \<and>
                     (\<exists>j<n_atoms sel. st_refres_selatm_pair (final_state ref sel contact (hint e)) ! r ! j = n)})
       \<and> refres_same_selatm (snd (contact_hist ref sel contact cutoff e)) ! 0 =
            n_residues ref -
            card {r. r < n_residues ref \<and>
                     (\<exists>j<n_atoms sel. st_refres_selatm_pair (final_state ref sel contact (hint e)) ! r ! j \<noteq> 0)}
       \<and> (1 \<le> n' \<and> n' \<le> np_max (concat (st_refres_selres_pair (final_state ref sel contact (hint e)))) \<longrightarrow>
            refres_same_selres (snd (contact_hist ref sel contact cutoff e)) ! n' =
            card {r. r < n_residues ref \<and>
                     (\<exists>j<n_residues sel. st_refres_selres_pair (final_state ref sel contact (hint e)) ! r ! j = n')})
       \<and> refres_same_selres (snd (contact_hist ref sel contact cutoff e)) ! 0 =
            n_residues ref -
            card {r. r < n_residues ref \<and>
                     (\<exists>j<n_residues sel. st_refres_selres_pair (final_state ref sel contact (hint e)) ! r ! j \<noteq> 0)}"
proof -
  let ?A = "st_refres_selatm_pair (final_state ref sel contact (hint e))"
  let ?B = "st_refres_selres_pair (final_state ref sel contact (hint e))"
  let ?l = "common_length (raw_hists ref sel contact (hint e))"
  have c: "snd (contact_hist ref sel contact cutoff e) = normal_path ref sel contact (hint e)"
    using assms by (simp add: contact_hist_normal)
  have lA: "length ?A = n_residues ref" and lB: "length ?B = n_residues ref"
    by (rule shape_pair_final)+
  have r: "n_residues ref < 4294967296" using n_residues_le[of ref] assms(4) by linarith
  have sA: "\<forall>row \<in> set ?A. length row = n_atoms sel" and sB: "\<forall>row \<in> set ?B. length row = n_residues sel"
    by (rule shape_pair_final)+
  have rA: "length ?A < 4294967296" and rB: "length ?B < 4294967296" using r lA lB by simp_all
  show ?thesis
    unfolding c normal_path_fields
    using same_hist_scan(1)[OF sA rA, where n=n and l="?l"] same_hist_scan(2)[OF sA rA, where l="?l"]
      same_hist_scan(1)[OF sB rB, where n=n' and l="?l"] same_hist_scan(2)[OF sB rB, where l="?l"]
    unfolding lA lB by blast
qed

lemma list_update_Cons_numeral: "(x # xs)[numeral k := y] = x # xs[pred_numeral k := y]"
  by (simp add: numeral_eq_Suc)

lemma replicate_numeral: "replicate (numeral k) x = x # replicate (pred_numeral k) x"
  by (simp add: numeral_eq_Suc)

lemma u32_small: "u32 0 = 0" "u32 1 = 1" "u32 (Suc 0) = Suc 0" "u32 2 = 2" "u32 3 = 3"
  by (simp_all add: u32_def)

lemma example_near:
  "atoms_around_point example_contact example_sel 0 = [0, 1]"
  "atoms_around_point example_contact example_sel 1 = []"
  "atoms_around_point example_contact example_sel (Suc 0) = []"
  by (simp_all add: atoms_around_point_def n_atoms_def example_contact_def example_sel_def
      upt_rec[of 0] upt_rec[of "Suc n" for n] eval_nat_numeral)

lemma example_resids:
  "resids example_ref = [1, 2]" "resids example_sel = [10, 10, 20]"
  by (simp_all add: resids_def example_ref_def example_sel_def example_resid_def)

lemma example_near_group:
  "near_group example_sel example_contact 0 = \<lparr>resid_of = example_resid, resindices = [2, 2]\<rparr>"
  "near_group example_sel example_contact (Suc 0) = \<lparr>resid_of = example_resid, resindices = []\<rparr>"
  by (simp_all add: near_group_def example_near) (simp_all add: example_sel_def)

lemma example_near_resids:
  "near_resids example_sel example_contact 0 = [10, 10]"
  "near_resids example_sel example_contact (Suc 0) = []"
  by (simp_all add: near_resids_def example_near_group resids_def example_resid_def)

lemma example_unique:
  "unique (resids example_ref) = [1, 2]" "unique (resids example_sel) = [10, 20]"
  "unique [10, 10] = [10]" "unique [] = []"
  by (simp_all add: unique_def example_resids)

lemma example_counts:
  "unique_counts [10, 10] = [2]" "unique_counts [] = []"
  by (simp_all add: unique_counts_def example_unique)

lemma example_sizes:
  "n_atoms example_ref = 2" "n_atoms example_sel = 3" "n_residues example_ref = 2"
  "n_residues example_sel = 2"
  "n_residues (near_group example_sel example_contact 0) = 1"
  "n_residues (near_group example_sel example_contact (Suc 0)) = 0"
  by (simp_all add: n_atoms_def n_residues_def example_near_group)
     (simp_all add: example_ref_def example_sel_def)

lemma example_refresid:
  "searchsorted [1, 2] (resids example_ref ! 0) = 0"
  "searchsorted [1, 2] (resids example_ref ! Suc 0) = 1"
  by (simp_all add: searchsorted_def example_resids)

lemma example_selres_idx:
  "intersect1d_indices [10, 20] [10] = [0]"
  "intersect1d_indices [10, 20] [] = []"
  by (simp_all add: intersect1d_indices_def index_of_def)

lemmas list_ev = list_update_Cons_numeral replicate_numeral u32_small u32_id nph_extend_def bump_def
  fancy_add_def add_at_def count_unused_def mark_used_def np_max_def Let_def

lemma example_state_0:
  "state_after example_ref example_sel example_contact 16 0 =
    \<lparr> st_refatm_selatm = [0,0,0,0,0,0,0,0,0,0,0,0,0,0,0,0],
      st_refatm_diff_selres = [0,0,0,0,0,0,0,0,0,0,0,0,0,0,0,0],
      st_refatm_same_selres = [0,0,0,0,0,0,0,0,0,0,0,0,0,0,0,0],
      st_refres_diff_selatm = [0,0],
      st_refres_selatm_tot = [0,0],
      st_refres_diff_selres = [0,0],
      st_refatm_selres_pair = [0,0,0,0,0,0,0,0,0,0,0,0,0,0,0,0],
      st_refres_selatm_pair = [[0,0,0],[0,0,0]],
      st_refres_selres_pair = [[0,0],[0,0]],
      st_selatm_unused = [[True,True,True],[True,True,True]],
      st_selres_unused = [[True,True],[True,True]] \<rparr>"
  by (simp add: state_after_def run_loop_def init_state_def example_sizes replicate_numeral)

lemma example_state_1:
  "state_after example_ref example_sel example_contact 16 (Suc 0) =
    \<lparr> st_refatm_selatm = [0,0,1,0,0,0,0,0,0,0,0,0,0,0,0,0],
      st_refatm_diff_selres = [0,1,0,0,0,0,0,0,0,0,0,0,0,0,0,0],
      st_refatm_same_selres = [0,0,1,0,0,0,0,0,0,0,0,0,0,0,0,0],
      st_refres_diff_selatm = [2,0],
      st_refres_selatm_tot = [2,0],
      st_refres_diff_selres = [1,0],
      st_refatm_selres_pair = [0,0,1,0,0,0,0,0,0,0,0,0,0,0,0,0],
      st_refres_selatm_pair = [[1,1,0],[0,0,0]],
      st_refres_selres_pair = [[2,0],[0,0]],
      st_selatm_unused = [[False,False,True],[True,True,True]],
      st_selres_unused = [[False,True],[True,True]] \<rparr>"
  unfolding state_after_Suc example_state_0
  by (simp add: step_def example_near example_near_resids example_unique example_counts
      example_sizes example_refresid example_selres_idx list_ev)


lemma example_state_2:
  "state_after example_ref example_sel example_contact 16 (Suc (Suc 0)) =
    \<lparr> st_refatm_selatm = [1,0,1,0,0,0,0,0,0,0,0,0,0,0,0,0],
      st_refatm_diff_selres = [1,1,0,0,0,0,0,0,0,0,0,0,0,0,0,0],
      st_refatm_same_selres = [1,0,1,0,0,0,0,0,0,0,0,0,0,0,0,0],
      st_refres_diff_selatm = [2,0],
      st_refres_selatm_tot = [2,0],
      st_refres_diff_selres = [1,0],
      st_refatm_selres_pair = [0,0,1,0,0,0,0,0,0,0,0,0,0,0,0,0],
      st_refres_selatm_pair = [[1,1,0],[0,0,0]],
      st_refres_selres_pair = [[2,0],[0,0]],
      st_selatm_unused = [[False,False,True],[True,True,True]],
      st_selres_unused = [[False,True],[True,True]] \<rparr>"
  unfolding state_after_Suc[of _ _ _ _ "Suc 0"] example_state_1
  by (simp add: step_def example_near example_near_resids example_unique example_counts
      example_sizes example_refresid example_selres_idx list_ev)

lemma example_final:
  "final_state example_ref example_sel example_contact 16 =
    \<lparr> st_refatm_selatm = [1,0,1,0,0,0,0,0,0,0,0,0,0,0,0,0],
      st_refatm_diff_selres = [1,1,0,0,0,0,0,0,0,0,0,0,0,0,0,0],
      st_refatm_same_selres = [1,0,1,0,0,0,0,0,0,0,0,0,0,0,0,0],
      st_refres_diff_selatm = [2,0],
      st_refres_selatm_tot = [2,0],
      st_refres_diff_selres = [1,0],
      st_refatm_selres_pair = [0,0,1,0,0,0,0,0,0,0,0,0,0,0,0,0],
      st_refres_selatm_pair = [[1,1,0],[0,0,0]],
      st_refres_selres_pair = [[2,0],[0,0]],
      st_selatm_unused = [[False,False,True],[True,True,True]],
      st_selres_unused = [[False,True],[True,True]] \<rparr>"
proof -
  have "n_atoms example_ref = Suc (Suc 0)" by (simp add: example_sizes)
  then show ?thesis by (simp only: final_state_after example_state_2)
qed

lemma u32_sub_small: "k \<le> n \<Longrightarrow> n < 4294967296 \<Longrightarrow> u32_sub n k = n - k"
  using u32_sub_exact[of k n] by (simp add: u32_id)

lemmas upt_ev = upt_rec[of 0] upt_rec[of "Suc n" for n] upt_rec[of "numeral k" for k]

lemma example_bincounts:
  "bincount [2, 0] = [1, 0, 1]" "bincount [Suc 0, 0] = [1, 1]"
  by (simp_all add: bincount_def np_max_def upt_ev u32_small u32_id)

lemma example_rows:
  "np_max [Suc 0, Suc 0, 0, 0, 0, 0] = 1"
  "np_max [2, 0, 0, 0] = 2"
  "rows_with [[Suc 0, Suc 0, 0], [0, 0, 0]] (Suc 0) = 1"
  "rows_with [[2, 0], [0, 0]] (Suc 0) = 0"
  "rows_with [[2, 0], [0, 0]] 2 = 1"
  "rows_nonzero [[Suc 0, Suc 0, 0], [0, 0, 0]] = 1"
  "rows_nonzero [[2, 0], [0, 0]] = 1"
  by (simp_all add: np_max_def rows_with_def rows_nonzero_def)

lemma example_same_hist_selatm: "same_hist 2 [[Suc 0, Suc 0, 0], [0, 0, 0]] = [1, 1]"
proof (rule nth_equalityI)
  show "length (same_hist 2 [[Suc 0, Suc 0, 0], [0, 0, 0]]) = length [1, 1::nat]"
    by (simp add: length_same_hist example_rows)
next
  fix i assume "i < length (same_hist 2 [[Suc 0, Suc 0, 0], [0, 0, 0]])"
  then have i: "i = 0 \<or> i = Suc 0" by (auto simp: length_same_hist example_rows)
  have n: "0 < np_max (concat [[Suc 0, Suc 0, 0], [0, 0, 0]]) + 1"
          "Suc 0 < np_max (concat [[Suc 0, Suc 0, 0], [0, 0, 0]]) + 1"
    by (simp_all add: example_rows)
  have "same_hist 2 [[Suc 0, Suc 0, 0], [0, 0, 0]] ! 0 = 1"
    unfolding nth_same_hist[OF n(1)] by (simp add: example_rows u32_small u32_sub_small)
  moreover have "same_hist 2 [[Suc 0, Suc 0, 0], [0, 0, 0]] ! Suc 0 = 1"
    unfolding nth_same_hist[OF n(2)] by (simp add: example_rows u32_small)
  ultimately show "same_hist 2 [[Suc 0, Suc 0, 0], [0, 0, 0]] ! i = [1, 1] ! i"
    using i by auto
qed

lemma example_same_hist_selres: "same_hist 2 [[2, 0], [0, 0]] = [1, 0, 1]"
proof (rule nth_equalityI)
  show "length (same_hist 2 [[2, 0], [0, 0]]) = length [1, 0, 1::nat]"
    by (simp add: length_same_hist example_rows)
next
  fix i assume "i < length (same_hist 2 [[2, 0], [0, 0]])"
  then have i: "i = 0 \<or> i = Suc 0 \<or> i = 2" by (auto simp: length_same_hist example_rows)
  have n: "0 < np_max (concat [[2, 0], [0, 0]]) + 1"
          "Suc 0 < np_max (concat [[2, 0], [0, 0]]) + 1"
          "2 < np_max (concat [[2, 0], [0, 0]]) + 1"
    by (simp_all add: example_rows)
  have "same_hist 2 [[2, 0], [0, 0]] ! 0 = 1"
    unfolding nth_same_hist[OF n(1)] by (simp add: example_rows u32_small u32_sub_small)
  moreover have "same_hist 2 [[2, 0], [0, 0]] ! Suc 0 = 0"
    unfolding nth_same_hist[OF n(2)] by (simp add: example_rows u32_small)
  moreover have "same_hist 2 [[2, 0], [0, 0]] ! 2 = 1"
    unfolding nth_same_hist[OF n(3)] by (simp add: example_rows u32_small)
  ultimately show "same_hist 2 [[2, 0], [0, 0]] ! i = [1, 0, 1] ! i"
    using i by auto
qed

lemmas example_same_hists = example_same_hist_selatm example_same_hist_selres

lemma example_pair_hists:
  "pair_hist [[Suc 0, Suc 0, 0], [0, 0, 0]] = [0, 2]" "pair_hist [[2, 0], [0, 0]] = [0, 0, 1]"
  by (simp_all add: pair_hist_def bincount_def np_max_def upt_ev u32_small u32_id)

lemma example_raw:
  "raw_hists example_ref example_sel example_contact 16 =
    \<lparr> refatm_selatm = [1,0,1,0,0,0,0,0,0,0,0,0,0,0,0,0],
      refatm_diff_selres = [1,1,0,0,0,0,0,0,0,0,0,0,0,0,0,0],
      refatm_same_selres = [1,0,1,0,0,0,0,0,0,0,0,0,0,0,0,0],
      refres_diff_selatm = [1,0,1],
      refres_same_selatm = [1,1],
      refres_selatm_tot = [1,0,1],
      refres_diff_selres = [1,1],
      refres_same_selres = [1,0,1],
      refatm_selres_pair = [0,0,1,0,0,0,0,0,0,0,0,0,0,0,0,0],
      refres_selatm_pair = [0,2],
      refres_selres_pair = [0,0,1] \<rparr>"
  by (simp add: raw_hists_final example_final example_sizes example_bincounts example_same_hists
      example_pair_hists)

lemma example_result:
  "contact_hist example_ref example_sel example_contact 1 16 =
    (False,
     \<lparr> refatm_selatm = [1,0,1,0,0,0,0,0,0,0,0,0,0,0,0,0],
       refatm_diff_selres = [1,1,0,0,0,0,0,0,0,0,0,0,0,0,0,0],
       refatm_same_selres = [1,0,1,0,0,0,0,0,0,0,0,0,0,0,0,0],
       refres_diff_selatm = [1,0,1,0,0,0,0,0,0,0,0,0,0,0,0,0],
       refres_same_selatm = [1,1,0,0,0,0,0,0,0,0,0,0,0,0,0,0],
       refres_selatm_tot = [1,0,1,0,0,0,0,0,0,0,0,0,0,0,0,0],
       refres_diff_selres = [1,1,0,0,0,0,0,0,0,0,0,0,0,0,0,0],
       refres_same_selres = [1,0,1,0,0,0,0,0,0,0,0,0,0,0,0,0],
       refatm_selres_pair = [0,0,1,0,0,0,0,0,0,0,0,0,0,0,0,0],
       refres_selatm_pair = [0,2,0,0,0,0,0,0,0,0,0,0,0,0,0,0],
       refres_selres_pair = [0,0,1,0,0,0,0,0,0,0,0,0,0,0,0,0] \<rparr>)"
proof -
  have h: "hint 16 = 16" by (simp add: hint_def)
  have n: "n_atoms example_ref \<noteq> 0" "n_atoms example_sel \<noteq> 0" "(0::real) < 1"
    by (simp_all add: example_sizes)
  have l: "common_length (raw_hists example_ref example_sel example_contact 16) = 16"
    by (simp add: example_raw common_length_def)
  show ?thesis
    unfolding contact_hist_normal[OF n] h normal_path_def Let_def l
    by (simp add: example_raw extend_all_def nph_extend_def replicate_numeral)
qed


subsection \<open>The end-to-end example\<close>

text \<open>
  The values that the specification expects in its end-to-end example are not the ones
  \<open>contact_hist\<close> computes: the reference atom with two neighbours is counted once in
  bin 2 of \<open>refatm_selatm\<close>, not twice, and the selection residue it touches has
  multiplicity 2, so it is bin 2 of \<open>refatm_same_selres\<close> that is increased, not bin 1.
\<close>

theorem example_histograms_counterexample:
  "\<not> (take 3 (refatm_selatm (snd (contact_hist example_ref example_sel example_contact 1 16))) = [1, 0, 2]
      \<and> take 3 (refatm_diff_selres (snd (contact_hist example_ref example_sel example_contact 1 16))) = [1, 1, 0]
      \<and> take 3 (refatm_same_selres (snd (contact_hist example_ref example_sel example_contact 1 16))) = [1, 1, 0]
      \<and> take 3 (refatm_selres_pair (snd (contact_hist example_ref example_sel example_contact 1 16))) = [0, 0, 1])"
  by (simp add: example_result)

text \<open>
  Claim C1, as the code has it.  In the end-to-end example (default capacity hint 16)
  \<open>contact_hist\<close> returns \<open>refatm_selatm = [1, 0, 1]\<close>, \<open>refatm_diff_selres = [1, 1, 0]\<close>,
  \<open>refatm_same_selres = [1, 0, 1]\<close> and \<open>refatm_selres_pair = [0, 0, 1]\<close>, each followed
  by 13 zero bins of padding.
\<close>

theorem example_histograms:
  "refatm_selatm (snd (contact_hist example_ref example_sel example_contact 1 16)) = [1, 0, 1] @ replicate 13 0
   \<and> refatm_diff_selres (snd (contact_hist example_ref example_sel example_contact 1 16)) = [1, 1, 0] @ replicate 13 0
   \<and> refatm_same_selres (snd (contact_hist example_ref example_sel example_contact 1 16)) = [1, 0, 1] @ replicate 13 0
   \<and> refatm_selres_pair (snd (contact_hist example_ref example_sel example_contact 1 16)) = [0, 0, 1] @ replicate 13 0"
  by (simp add: example_result replicate_numeral)


theorem same_entries_bounded_witness:
  "n_atoms example_ref \<noteq> 0 \<and> n_atoms example_sel \<noteq> 0 \<and> (0::real) < 1
   \<and> bin (refatm_same_selres (snd (contact_hist example_ref example_sel example_contact 1 16))) 2 \<le> 2
   \<and> bin (refres_same_selatm (snd (contact_hist example_ref example_sel example_contact 1 16))) 2 \<le> 2
   \<and> bin (refres_same_selres (snd (contact_hist example_ref example_sel example_contact 1 16))) 2 \<le> 2"
proof -
  have a: "n_atoms example_ref \<noteq> 0" "n_atoms example_sel \<noteq> 0" "(0::real) < 1"
    by (simp_all add: example_sizes)
  show ?thesis
    using same_entries_bounded[OF a, of example_contact 16 2] a by (simp add: example_sizes)
qed

theorem same_hist_threshold_scan_witness:
  "n_atoms example_ref \<noteq> 0 \<and> n_atoms example_sel \<noteq> 0 \<and> (0::real) < 1
   \<and> n_atoms example_ref < 4294967296
   \<and> 1 \<le> (1::nat)
   \<and> 1 \<le> np_max (concat (st_refres_selatm_pair (final_state example_ref example_sel example_contact (hint 16))))
   \<and> 1 \<le> (2::nat)
   \<and> 2 \<le> np_max (concat (st_refres_selres_pair (final_state example_ref example_sel example_contact (hint 16))))
   \<and> refres_same_selatm (snd (contact_hist example_ref example_sel example_contact 1 16)) ! 1 =
       card {r. r < 2 \<and> (\<exists>j<3. [[1, 1, 0], [0, 0, 0]] ! r ! j = (1::nat))}
   \<and> refres_same_selatm (snd (contact_hist example_ref example_sel example_contact 1 16)) ! 0 =
       2 - card {r. r < 2 \<and> (\<exists>j<3. [[1, 1, 0], [0, 0, 0]] ! r ! j \<noteq> (0::nat))}
   \<and> refres_same_selres (snd (contact_hist example_ref example_sel example_contact 1 16)) ! 2 =
       card {r. r < 2 \<and> (\<exists>j<2. [[2, 0], [0, 0]] ! r ! j = (2::nat))}
   \<and> refres_same_selres (snd (contact_hist example_ref example_sel example_contact 1 16)) ! 0 =
       2 - card {r. r < 2 \<and> (\<exists>j<2. [[2, 0], [0, 0]] ! r ! j \<noteq> (0::nat))}"
proof -
  have a: "n_atoms example_ref \<noteq> 0" "n_atoms example_sel \<noteq> 0" "(0::real) < 1"
    "n_atoms example_ref < 4294967296"
    by (simp_all add: example_sizes)
  have h: "hint 16 = 16" by (simp add: hint_def)
  have m: "st_refres_selatm_pair (final_state example_ref example_sel example_contact (hint 16)) = [[1, 1, 0], [0, 0, 0]]"
    "st_refres_selres_pair (final_state example_ref example_sel example_contact (hint 16)) = [[2, 0], [0, 0]]"
    by (simp_all add: h example_final)
  have mx: "np_max (concat [[1, 1, 0], [0, 0, 0]]) = 1" "np_max (concat [[2, 0], [0, 0]]) = 2"
    by (simp_all add: np_max_def)
  show ?thesis
    using same_hist_threshold_scan[OF a, of 1 example_contact 16 2] a
    unfolding m mx example_sizes by simp
qed

subsection \<open>The capacity hint\<close>

lemma bins_fold_bump:
  "(\<And>m. bin h m = bin h' m) \<Longrightarrow>
   bin (fold (\<lambda>i h. bump h (f i)) ks h) m = bin (fold (\<lambda>i h. bump h (f i)) ks h') m"
proof (induction ks arbitrary: h h' m)
  case Nil
  then show ?case by simp
next
  case (Cons k ks)
  have "bin (bump h (f k)) n = bin (bump h' (f k)) n" for n
    by (simp add: bin_bump Cons.prems)
  then show ?case using Cons.IH[of "bump h (f k)" "bump h' (f k)" m] by simp
qed

lemma bin_update: "j < length a \<Longrightarrow> bin (a[j := x]) m = (if m = j then x else bin a m)"
  by (simp add: bin_def)

lemma bins_add_at:
  assumes "\<And>m. bin a m = bin a' m" and "\<forall>j \<in> set idx. j < length a \<and> j < length a'"
  shows "bin (add_at a idx vs) m = bin (add_at a' idx vs) m"
proof -
  have "(\<And>m. bin a m = bin a' m) \<Longrightarrow> \<forall>p \<in> set ps. fst p < length a \<and> fst p < length a' \<Longrightarrow>
        bin (fold (\<lambda>jv b. b[fst jv := u32 (b ! fst jv + snd jv)]) ps a) m =
        bin (fold (\<lambda>jv b. b[fst jv := u32 (b ! fst jv + snd jv)]) ps a') m" for ps
  proof (induction ps arbitrary: a a' m)
    case Nil
    then show ?case by simp
  next
    case (Cons p ps)
    let ?b = "a[fst p := u32 (a ! fst p + snd p)]" and ?b' = "a'[fst p := u32 (a' ! fst p + snd p)]"
    have r: "fst p < length a" "fst p < length a'" using Cons.prems(2) by simp_all
    have "a ! fst p = a' ! fst p" using Cons.prems(1)[of "fst p"] r by (simp add: bin_def)
    then have e: "bin ?b n = bin ?b' n" for n
      using r Cons.prems(1)[of n] by (simp add: bin_update)
    have "\<forall>q \<in> set ps. fst q < length ?b \<and> fst q < length ?b'" using Cons.prems(2) by simp
    then show ?case using Cons.IH[of ?b ?b' m] e by simp
  qed
  moreover have "\<forall>p \<in> set (zip idx vs). fst p < length a \<and> fst p < length a'"
    using assms(2) by (auto dest: set_zip_leftD)
  ultimately show ?thesis using assms(1) by (simp add: add_at_def)
qed

lemma bins_same_selres_step:
  assumes "\<And>m. bin (st_refatm_same_selres s) m = bin (st_refatm_same_selres s') m"
    and "st_refatm_same_selres s \<noteq> []" and "st_refatm_same_selres s' \<noteq> []"
  shows "bin (st_refatm_same_selres (step ref sel contact i s)) m =
         bin (st_refatm_same_selres (step ref sel contact i s')) m"
  by (simp add: bin_same_selres_step[OF assms(2)] bin_same_selres_step[OF assms(3)] assms(1))

lemma bins_selres_pair_step:
  assumes "\<And>m. bin (st_refatm_selres_pair s) m = bin (st_refatm_selres_pair s') m"
  shows "bin (st_refatm_selres_pair (step ref sel contact i s)) m =
         bin (st_refatm_selres_pair (step ref sel contact i s')) m"
proof (cases "unique (near_resids sel contact i) = []")
  case True
  then show ?thesis by (simp add: st_selres_pair_step assms)
next
  case False
  let ?cs = "unique_counts (near_resids sel contact i)"
  have "\<forall>j \<in> set ?cs. j < length (nph_extend (st_refatm_selres_pair s) (np_max ?cs + 1))
                     \<and> j < length (nph_extend (st_refatm_selres_pair s') (np_max ?cs + 1))"
  proof
    fix j assume "j \<in> set ?cs"
    then have "j < np_max ?cs + 1" by (rule unique_counts_le_max)
    then show "j < length (nph_extend (st_refatm_selres_pair s) (np_max ?cs + 1))
             \<and> j < length (nph_extend (st_refatm_selres_pair s') (np_max ?cs + 1))"
      by (simp add: length_nph_extend less_max_iff_disj)
  qed
  then show ?thesis
    using False by (simp add: st_selres_pair_step bins_add_at bin_nph_extend assms)
qed

lemma res_part_step:
  "res_part s = res_part s' \<Longrightarrow> res_part (step ref sel contact i s) = res_part (step ref sel contact i s')"
  by (simp add: res_part_def step_def Let_def)

lemma res_part_init: "res_part (init_state ref sel e) = res_part (init_state ref sel e')"
  by (simp add: res_part_def init_state_def)

lemma res_part_after:
  "res_part (state_after ref sel contact e k) = res_part (state_after ref sel contact e' k)"
proof (induction k)
  case 0
  then show ?case by (simp add: state_after_0 res_part_init)
next
  case (Suc k)
  then show ?case unfolding state_after_Suc by (rule res_part_step)
qed

lemma bins_atm_after:
  assumes "0 < e" and "0 < e'"
  shows "bin (st_refatm_same_selres (state_after ref sel contact e k)) m =
         bin (st_refatm_same_selres (state_after ref sel contact e' k)) m"
    and "bin (st_refatm_selres_pair (state_after ref sel contact e k)) m =
         bin (st_refatm_selres_pair (state_after ref sel contact e' k)) m"
proof (induction k arbitrary: m)
  case 0
  {
    case 1 show ?case by (simp add: state_after_0 init_state_def bin_def)
  next
    case 2 show ?case by (simp add: state_after_0 init_state_def bin_def)
  }
next
  case (Suc k)
  {
    case 1
    have ne: "st_refatm_same_selres (state_after ref sel contact e k) \<noteq> []"
      "st_refatm_same_selres (state_after ref sel contact e' k) \<noteq> []"
      using length_same_selres_after[of e ref sel contact k]
        length_same_selres_after[of e' ref sel contact k] assms by auto
    show ?case unfolding state_after_Suc
      by (rule bins_same_selres_step[OF Suc(1) ne])
  next
    case 2
    show ?case unfolding state_after_Suc
      by (rule bins_selres_pair_step[OF Suc(2)])
  }
qed

lemma bins_selatm_final:
  "bin (st_refatm_selatm (final_state ref sel contact e)) m =
   bin (st_refatm_selatm (final_state ref sel contact e')) m"
  "bin (st_refatm_diff_selres (final_state ref sel contact e)) m =
   bin (st_refatm_diff_selres (final_state ref sel contact e')) m"
proof -
  have z: "bin (replicate e 0) n = bin (replicate e' 0) n" for n
    by (simp add: bin_def)
  show "bin (st_refatm_selatm (final_state ref sel contact e)) m =
        bin (st_refatm_selatm (final_state ref sel contact e')) m"
    unfolding final_state_def st_selatm_run
    by (simp add: init_state_def bins_fold_bump[OF z])
  show "bin (st_refatm_diff_selres (final_state ref sel contact e)) m =
        bin (st_refatm_diff_selres (final_state ref sel contact e')) m"
    unfolding final_state_def st_diff_selres_run
    by (simp add: init_state_def bins_fold_bump[OF z])
qed

lemma res_part_final:
  "st_refres_diff_selatm (final_state ref sel contact e) = st_refres_diff_selatm (final_state ref sel contact e')"
  "st_refres_selatm_tot (final_state ref sel contact e) = st_refres_selatm_tot (final_state ref sel contact e')"
  "st_refres_diff_selres (final_state ref sel contact e) = st_refres_diff_selres (final_state ref sel contact e')"
  "st_refres_selatm_pair (final_state ref sel contact e) = st_refres_selatm_pair (final_state ref sel contact e')"
  "st_refres_selres_pair (final_state ref sel contact e) = st_refres_selres_pair (final_state ref sel contact e')"
  using res_part_after[of ref sel contact e "n_atoms ref" e']
  by (simp_all add: res_part_def final_state_after)

lemma bins_at_normal_path:
  assumes "0 < e" and "0 < e'"
  shows "bins_at m (normal_path ref sel contact e) = bins_at m (normal_path ref sel contact e')"
  unfolding bins_at_def hists_list_def
  by (simp add: normal_path_fields bin_nph_extend bins_selatm_final[of ref sel contact e m e']
      bins_atm_after[OF assms, of ref sel contact "n_atoms ref" m, folded final_state_after]
      res_part_final[of ref sel contact e e'])

text \<open>
  Claim C8.  The capacity hint \<open>expected_max_contacts\<close> does not affect the results: a
  call with a non-positive hint returns exactly what a call with the default 16 returns,
  and for two positive hints the eleven histograms of the two results agree at every bin
  \<open>m\<close>, a bin beyond the end of an array being read as 0: the results differ at most in
  trailing zero bins.
\<close>

theorem hint_independent:
  "(e \<le> 0 \<longrightarrow> contact_hist ref sel contact cutoff e = contact_hist ref sel contact cutoff 16)
   \<and> (0 < e1 \<and> 0 < e2 \<longrightarrow>
        bins_at m (snd (contact_hist ref sel contact cutoff e1)) =
        bins_at m (snd (contact_hist ref sel contact cutoff e2)))"
proof -
  have 1: "e \<le> 0 \<longrightarrow> contact_hist ref sel contact cutoff e = contact_hist ref sel contact cutoff 16"
    by (simp add: contact_hist_def)
  have 2: "bins_at m (snd (contact_hist ref sel contact cutoff e1)) =
           bins_at m (snd (contact_hist ref sel contact cutoff e2))"
  proof (cases "n_atoms ref \<noteq> 0 \<and> n_atoms sel \<noteq> 0 \<and> 0 < cutoff")
    case True
    then show ?thesis
      by (simp add: contact_hist_normal bins_at_normal_path[OF hint_pos hint_pos])
  next
    case False
    then consider "n_atoms ref = 0" | "n_atoms ref \<noteq> 0" "n_atoms sel = 0 \<or> cutoff \<le> 0"
      by fastforce
    then show ?thesis
    proof cases
      case 1
      then show ?thesis by (simp add: contact_hist_empty_ref)
    next
      case 2
      then show ?thesis by (simp add: contact_hist_trivial)
    qed
  qed
  show ?thesis using 1 2 by blast
qed


theorem hint_independent_witness:
  "(0::int) \<le> 0
   \<and> contact_hist example_ref example_sel example_contact 1 0 =
     contact_hist example_ref example_sel example_contact 1 16
   \<and> (0::int) < 3 \<and> (0::int) < 16
   \<and> bins_at 2 (snd (contact_hist example_ref example_sel example_contact 1 3)) =
     bins_at 2 (snd (contact_hist example_ref example_sel example_contact 1 16))
   \<and> bins_at 2 (snd (contact_hist example_ref example_sel example_contact 1 3)) =
     [1, 0, 1, 1, 0, 1, 0, 1, 1, 0, 1]"
proof -
  have v: "bins_at 2 (snd (contact_hist example_ref example_sel example_contact 1 16)) =
      [1, 0, 1, 1, 0, 1, 0, 1, 1, 0, 1]"
    by (simp add: example_result bins_at_def hists_list_def bin_def)
  show ?thesis
    using hint_independent[where e=0 and ref=example_ref and sel=example_sel
        and contact=example_contact and cutoff=1 and ?e1.0=3 and ?e2.0=16 and m=2] v
    by simp
qed

subsection \<open>Reference atoms with pairwise different resids\<close>

lemma searchsorted_nth:
  assumes "sorted us" and "v \<in> set us"
  shows "searchsorted us v < length us \<and> us ! searchsorted us v = v"
proof -
  let ?P = "\<lambda>x. x < v"
  let ?k = "length (takeWhile ?P us)"
  have "takeWhile ?P us \<noteq> us" using assms(2) by (auto simp: takeWhile_eq_all_conv)
  then have lt: "?k < length us"
    using length_takeWhile_le[of ?P us] by (metis le_neq_implies_less takeWhile_eq_take take_all_iff order_refl)
  have ge: "v \<le> us ! ?k" using nth_length_takeWhile[OF lt] by simp
  obtain j where j: "j < length us" "us ! j = v" using assms(2) by (auto simp: in_set_conv_nth)
  have "\<not> j < ?k"
  proof
    assume "j < ?k"
    then have "takeWhile ?P us ! j \<in> set (takeWhile ?P us)" by simp
    moreover have "takeWhile ?P us ! j = us ! j" using \<open>j < ?k\<close> by (rule takeWhile_nth)
    ultimately have "us ! j < v" by (auto dest: set_takeWhileD)
    then show False using j by simp
  qed
  then have "us ! ?k \<le> us ! j" using assms(1) j by (intro sorted_nth_mono) auto
  then show ?thesis using ge lt j by (simp add: searchsorted_def)
qed

lemma sorted_unique: "sorted (unique xs)"
  by (simp add: unique_def)

lemma length_resids: "length (resids ag) = n_atoms ag"
  by (simp add: resids_def n_atoms_def)

text \<open>
  A residue has one resid, so a group has at most as many different resids as it has
  residues: the positions found in \<open>np.unique(ag.resids)\<close> are inside an array of
  \<open>ag.n_residues\<close> entries.
\<close>

lemma length_unique_resids_le: "length (unique (resids ag)) \<le> n_residues ag"
proof -
  have "length (unique (resids ag)) = card (set (resids ag))"
    by (simp add: unique_def length_remdups_card_conv)
  also have "\<dots> = card (resid_of ag ` set (resindices ag))"
    by (simp add: resids_def)
  also have "\<dots> \<le> card (set (resindices ag))"
    by (rule card_image_le) simp
  also have "\<dots> = n_residues ag"
    by (simp add: n_residues_def length_remdups_card_conv)
  finally show ?thesis .
qed

lemma n_residues_distinct: "distinct (resids ag) \<Longrightarrow> n_residues ag = n_atoms ag"
  by (simp add: n_residues_def n_atoms_def resids_def distinct_map)

lemma refresid_less:
  assumes "i < n_atoms ref"
  shows "searchsorted (unique (resids ref)) (resids ref ! i) < n_residues ref"
proof -
  have "resids ref ! i \<in> set (unique (resids ref))"
    using assms by (simp add: set_unique length_resids)
  then have "searchsorted (unique (resids ref)) (resids ref ! i) < length (unique (resids ref))"
    using searchsorted_nth[OF sorted_unique] by blast
  then show ?thesis using length_unique_resids_le[of ref] by linarith
qed

lemma refresid_inj:
  assumes "i < n_atoms ref" and "j < n_atoms ref" and "distinct (resids ref)"
    and "searchsorted (unique (resids ref)) (resids ref ! i) = searchsorted (unique (resids ref)) (resids ref ! j)"
  shows "i = j"
proof -
  have "resids ref ! i = unique (resids ref) ! searchsorted (unique (resids ref)) (resids ref ! i)"
    using searchsorted_nth[OF sorted_unique, of "resids ref ! i" "resids ref"] assms(1)
    by (simp add: set_unique length_resids)
  moreover have "resids ref ! j = unique (resids ref) ! searchsorted (unique (resids ref)) (resids ref ! j)"
    using searchsorted_nth[OF sorted_unique, of "resids ref ! j" "resids ref"] assms(2)
    by (simp add: set_unique length_resids)
  ultimately have "resids ref ! i = resids ref ! j" using assms(4) by simp
  then show ?thesis using assms(1-3) by (simp add: nth_eq_iff_index_eq length_resids)
qed

lemma count_list_update:
  "j < length t \<Longrightarrow>
   count_list (t[j := x]) m + (if t ! j = m then 1 else 0) = count_list t m + (if x = m then 1 else 0)"
proof (induction t arbitrary: j)
  case Nil
  then show ?case by simp
next
  case (Cons a t)
  show ?case
  proof (cases j)
    case 0
    then show ?thesis by auto
  next
    case (Suc n)
    then have "n < length t" using Cons.prems by simp
    then have "count_list (t[n := x]) m + (if t ! n = m then 1 else 0)
             = count_list t m + (if x = m then 1 else 0)"
      by (rule Cons.IH)
    then show ?thesis using Suc by auto
  qed
qed

lemma scatter_count:
  assumes "distinct (map g ks)"
    and "\<forall>i \<in> set ks. g i < length t \<and> t ! g i = 0 \<and> v i < 4294967296"
  shows "count_list (fold (\<lambda>i t. t[g i := u32 (t ! g i + v i)]) ks t) m + (if m = 0 then length ks else 0)
       = count_list t m + count_list (map v ks) m"
  using assms
proof (induction ks arbitrary: t)
  case Nil
  then show ?case by simp
next
  case (Cons i ks)
  let ?t = "t[g i := u32 (t ! g i + v i)]"
  have gi: "g i < length t" "t ! g i = 0" "v i < 4294967296" using Cons.prems(2) by simp_all
  have t': "?t = t[g i := v i]" using gi by (simp add: u32_id)
  have a: "\<forall>i' \<in> set ks. g i' < length ?t \<and> ?t ! g i' = 0 \<and> v i' < 4294967296"
  proof
    fix i' assume i': "i' \<in> set ks"
    then have "g i' \<in> set (map g ks)" by simp
    moreover have "g i \<notin> set (map g ks)" using Cons.prems(1) by simp
    ultimately have "g i' \<noteq> g i" by metis
    then show "g i' < length ?t \<and> ?t ! g i' = 0 \<and> v i' < 4294967296"
      using Cons.prems(2) i' by simp
  qed
  have d: "distinct (map g ks)" using Cons.prems(1) by simp
  have ih: "count_list (fold (\<lambda>i t. t[g i := u32 (t ! g i + v i)]) ks ?t) m
        + (if m = 0 then length ks else 0) = count_list ?t m + count_list (map v ks) m"
    by (rule Cons.IH[OF d a])
  have c: "count_list (t[g i := v i]) m + (if 0 = m then 1 else 0)
         = count_list t m + (if v i = m then 1 else 0)"
    using count_list_update[OF gi(1), of "v i" m] gi(2) by simp
  have f: "fold (\<lambda>i t. t[g i := u32 (t ! g i + v i)]) (i # ks) t
         = fold (\<lambda>i t. t[g i := u32 (t ! g i + v i)]) ks (t[g i := v i])"
    using t' by simp
  show ?case unfolding f using ih[unfolded t'] c by (auto split: if_splits)
qed

lemma bin_le_sum_list: "bin h n \<le> sum_list h"
  by (simp add: bin_def elem_le_sum_list)

lemma bin_fold_bump_count:
  "sum_list h + length ks < 4294967296 \<Longrightarrow>
   bin (fold (\<lambda>i h. bump h (f i)) ks h) m = bin h m + count_list (map f ks) m"
proof (induction ks arbitrary: h)
  case Nil
  then show ?case by simp
next
  case (Cons k ks)
  have s: "sum_list (bump h (f k)) = sum_list h + 1"
    using Cons.prems by (intro sum_list_bump) simp
  have "u32 (bin h (f k) + 1) = bin h (f k) + 1"
    using bin_le_sum_list[of h "f k"] Cons.prems by (intro u32_id) simp
  then have b: "bin (bump h (f k)) m = bin h m + (if f k = m then 1 else 0)"
    by (auto simp: bin_bump)
  have "bin (fold (\<lambda>i h. bump h (f i)) ks (bump h (f k))) m
        = bin (bump h (f k)) m + count_list (map f ks) m"
    using Cons.prems s by (intro Cons.IH) simp
  then show ?case using b by auto
qed


lemma st_tot_step:
  "st_refres_selatm_tot (step ref sel contact i s) =
    (st_refres_selatm_tot s)[searchsorted (unique (resids ref)) (resids ref ! i) :=
      u32 (st_refres_selatm_tot s ! searchsorted (unique (resids ref)) (resids ref ! i)
           + length (atoms_around_point contact sel i))]"
  by (simp add: step_def Let_def)

lemma st_tot_run:
  "st_refres_selatm_tot (run_loop ref sel contact ks s) =
    fold (\<lambda>i t. t[searchsorted (unique (resids ref)) (resids ref ! i) :=
                   u32 (t ! searchsorted (unique (resids ref)) (resids ref ! i) + length (atoms_around_point contact sel i))])
      ks (st_refres_selatm_tot s)"
  by (induction ks arbitrary: s) (simp_all add: run_loop_def st_tot_step)

lemma st_diff_selatm_step:
  "st_refres_diff_selatm (step ref sel contact i s) =
    (st_refres_diff_selatm s)[searchsorted (unique (resids ref)) (resids ref ! i) :=
      u32 (st_refres_diff_selatm s ! searchsorted (unique (resids ref)) (resids ref ! i)
           + count_unused (st_selatm_unused s ! searchsorted (unique (resids ref)) (resids ref ! i))
               (atoms_around_point contact sel i))]"
  by (simp add: step_def Let_def)

lemma st_selatm_unused_step:
  "st_selatm_unused (step ref sel contact i s) =
    (st_selatm_unused s)[searchsorted (unique (resids ref)) (resids ref ! i) :=
      mark_used (st_selatm_unused s ! searchsorted (unique (resids ref)) (resids ref ! i))
        (atoms_around_point contact sel i)]"
  by (simp add: step_def Let_def)

lemma atoms_around_point_less: "j \<in> set (atoms_around_point contact sel i) \<Longrightarrow> j < n_atoms sel"
  by (simp add: atoms_around_point_def n_atoms_def)

lemma length_atoms_around_point: "length (atoms_around_point contact sel i) \<le> n_atoms sel"
  using length_filter_le[of "contact i" "[0..<n_atoms sel]"]
  by (simp add: atoms_around_point_def n_atoms_def)

lemma count_unused_all_true:
  "\<forall>j \<in> set idx. j < n \<Longrightarrow> count_unused (replicate n True) idx = length idx"
  by (induction idx) (simp_all add: count_unused_def)

lemma diff_eq_tot_after:
  assumes "distinct (resids ref)" and "k \<le> n_atoms ref"
  shows "st_refres_diff_selatm (state_after ref sel contact e k) =
         st_refres_selatm_tot (state_after ref sel contact e k)
       \<and> length (st_selatm_unused (state_after ref sel contact e k)) = n_residues ref
       \<and> (\<forall>i. k \<le> i \<and> i < n_atoms ref \<longrightarrow>
            st_selatm_unused (state_after ref sel contact e k) ! searchsorted (unique (resids ref)) (resids ref ! i)
            = replicate (n_atoms sel) True)"
  using assms(2)
proof (induction k)
  case 0
  then show ?case by (simp add: state_after_0 init_state_def refresid_less)
next
  case (Suc k)
  let ?s = "state_after ref sel contact e k"
  let ?r = "searchsorted (unique (resids ref)) (resids ref ! k)"
  let ?near = "atoms_around_point contact sel k"
  have k: "k < n_atoms ref" using Suc.prems by simp
  have ih: "st_refres_diff_selatm ?s = st_refres_selatm_tot ?s"
    "length (st_selatm_unused ?s) = n_residues ref"
    "\<And>i. k \<le> i \<Longrightarrow> i < n_atoms ref \<Longrightarrow>
       st_selatm_unused ?s ! searchsorted (unique (resids ref)) (resids ref ! i) = replicate (n_atoms sel) True"
    using Suc.IH k by simp_all
  have row: "st_selatm_unused ?s ! ?r = replicate (n_atoms sel) True" using ih(3)[of k] k by simp
  have cu: "count_unused (st_selatm_unused ?s ! ?r) ?near = length ?near"
    unfolding row by (rule count_unused_all_true) (simp add: atoms_around_point_less)
  have 1: "st_refres_diff_selatm (step ref sel contact k ?s) = st_refres_selatm_tot (step ref sel contact k ?s)"
    by (simp add: st_diff_selatm_step st_tot_step cu ih(1))
  have 2: "length (st_selatm_unused (step ref sel contact k ?s)) = n_residues ref"
    by (simp add: st_selatm_unused_step ih(2))
  have 3: "st_selatm_unused (step ref sel contact k ?s) ! searchsorted (unique (resids ref)) (resids ref ! i)
           = replicate (n_atoms sel) True" if "Suc k \<le> i" "i < n_atoms ref" for i
  proof -
    have "searchsorted (unique (resids ref)) (resids ref ! i) \<noteq> ?r"
      using refresid_inj[OF that(2) k assms(1)] that(1) by auto
    then show ?thesis using ih(3)[of i] that by (simp add: st_selatm_unused_step)
  qed
  show ?case unfolding state_after_Suc using 1 2 3 by blast
qed

lemma count_list_replicate: "count_list (replicate n x) y = (if x = y then n else 0)"
  by (induction n) auto

lemma refresid_distinct:
  assumes "distinct (resids ref)"
  shows "distinct (map (\<lambda>i. searchsorted (unique (resids ref)) (resids ref ! i)) [0..<n_atoms ref])"
proof -
  have "inj_on (\<lambda>i. searchsorted (unique (resids ref)) (resids ref ! i)) (set [0..<n_atoms ref])"
    using refresid_inj[OF _ _ assms] by (auto simp: inj_on_def)
  then show ?thesis by (simp add: distinct_map)
qed

lemma count_tot_final:
  assumes "distinct (resids ref)" and "n_atoms sel < 4294967296"
  shows "count_list (st_refres_selatm_tot (final_state ref sel contact e)) m =
         count_list (map (\<lambda>i. length (atoms_around_point contact sel i)) [0..<n_atoms ref]) m"
proof -
  let ?g = "\<lambda>i. searchsorted (unique (resids ref)) (resids ref ! i)"
  let ?v = "\<lambda>i. length (atoms_around_point contact sel i)"
  let ?t = "replicate (n_residues ref) (0::nat)"
  have a: "\<forall>i \<in> set [0..<n_atoms ref]. ?g i < length ?t \<and> ?t ! ?g i = 0 \<and> ?v i < 4294967296"
  proof
    fix i assume "i \<in> set [0..<n_atoms ref]"
    then have "?g i < n_residues ref" by (simp add: refresid_less)
    moreover have "?v i < 4294967296"
      using length_atoms_around_point[of contact sel i] assms(2) by linarith
    ultimately show "?g i < length ?t \<and> ?t ! ?g i = 0 \<and> ?v i < 4294967296" by simp
  qed
  have "count_list (fold (\<lambda>i t. t[?g i := u32 (t ! ?g i + ?v i)]) [0..<n_atoms ref] ?t) m
          + (if m = 0 then length [0..<n_atoms ref] else 0)
        = count_list ?t m + count_list (map ?v [0..<n_atoms ref]) m"
    by (rule scatter_count[OF refresid_distinct[OF assms(1)] a])
  moreover have "st_refres_selatm_tot (final_state ref sel contact e)
        = fold (\<lambda>i t. t[?g i := u32 (t ! ?g i + ?v i)]) [0..<n_atoms ref] ?t"
    by (simp add: final_state_def st_tot_run init_state_def)
  ultimately show ?thesis
    using n_residues_distinct[OF assms(1)] by (auto simp: count_list_replicate split: if_splits)
qed

lemma bin_selatm_final_count:
  assumes "n_atoms ref < 4294967296"
  shows "bin (st_refatm_selatm (final_state ref sel contact e)) m =
         count_list (map (\<lambda>i. length (atoms_around_point contact sel i)) [0..<n_atoms ref]) m"
proof -
  have p: "sum_list (replicate e (0::nat)) + length [0..<n_atoms ref] < 4294967296"
    using assms by (simp add: sum_list_replicate_0)
  have "bin (replicate e (0::nat)) m = 0" by (simp add: bin_def)
  then show ?thesis
    using bin_fold_bump_count[OF p, of "\<lambda>i. length (atoms_around_point contact sel i)" m]
    by (simp add: final_state_def st_selatm_run init_state_def)
qed

lemma list_eq_bins:
  assumes "length a = length b" and "\<And>m. bin a m = bin b m"
  shows "a = b"
proof (rule nth_equalityI)
  show "length a = length b" by (rule assms(1))
next
  fix i assume "i < length a"
  then show "a ! i = b ! i" using assms(2)[of i] assms(1) by (simp add: bin_def)
qed

lemma common_length_ge4: "length (refres_diff_selatm h) \<le> common_length h"
  unfolding common_length_def
  by (rule max.coboundedI2, rule max.coboundedI2, rule max.coboundedI2, rule max.cobounded1)

lemma common_length_ge6: "length (refres_selatm_tot h) \<le> common_length h"
  unfolding common_length_def
  by (rule max.coboundedI2, rule max.coboundedI2, rule max.coboundedI2, rule max.coboundedI2,
      rule max.coboundedI2, rule max.cobounded1)

text \<open>
  When the resids of the reference atoms are pairwise different, every reference atom has
  a row of its own in the per-residue arrays.  Then, on the normal path, the returned
  \<open>refres_diff_selatm\<close> and \<open>refres_selatm_tot\<close> are both equal, bin by bin and in
  length, to the returned \<open>refatm_selatm\<close>.  (\<open>uint32\<close> counters: both groups have fewer
  than \<open>2 ^ 32\<close> atoms.)
\<close>

lemma distinct_resids_collapse:
  assumes "distinct (resids ref)"
    and "n_atoms ref \<noteq> 0" and "n_atoms sel \<noteq> 0" and "0 < cutoff"
    and "n_atoms ref < 4294967296" and "n_atoms sel < 4294967296"
  shows "refres_diff_selatm (snd (contact_hist ref sel contact cutoff e)) =
         refatm_selatm (snd (contact_hist ref sel contact cutoff e))
       \<and> refres_selatm_tot (snd (contact_hist ref sel contact cutoff e)) =
         refatm_selatm (snd (contact_hist ref sel contact cutoff e))"
proof -
  let ?f = "final_state ref sel contact (hint e)"
  let ?h = "raw_hists ref sel contact (hint e)"
  let ?L = "common_length ?h"
  have c: "snd (contact_hist ref sel contact cutoff e) = normal_path ref sel contact (hint e)"
    using assms by (simp add: contact_hist_normal)
  have dt: "st_refres_diff_selatm ?f = st_refres_selatm_tot ?f"
    using diff_eq_tot_after[OF assms(1), of "n_atoms ref" sel contact "hint e"]
    by (simp add: final_state_after)
  have len: "length (st_refres_selatm_tot ?f) < 4294967296"
    using n_residues_le[of ref] assms(5) by (simp add: length_refres_final)
  have bins: "bin (bincount (st_refres_selatm_tot ?f)) m = bin (st_refatm_selatm ?f) m" for m
  proof -
    have "u32 (count_list (st_refres_selatm_tot ?f) m) = count_list (st_refres_selatm_tot ?f) m"
      using count_le_length[of "st_refres_selatm_tot ?f" m] len by (intro u32_id) linarith
    then show ?thesis
      by (simp add: bin_bincount count_tot_final[OF assms(1) assms(6)]
          bin_selatm_final_count[OF assms(5)])
  qed
  have l1: "length (nph_extend (st_refatm_selatm ?f) ?L) = ?L"
    using common_length_ge[of ?h] by (simp add: length_nph_extend raw_hists_final Let_def)
  have l6: "length (nph_extend (bincount (st_refres_selatm_tot ?f)) ?L) = ?L"
    using common_length_ge6[of ?h] by (simp add: length_nph_extend raw_hists_final Let_def)
  have eq: "nph_extend (bincount (st_refres_selatm_tot ?f)) ?L = nph_extend (st_refatm_selatm ?f) ?L"
    by (rule list_eq_bins) (simp_all add: l1 l6 bin_nph_extend bins)
  show ?thesis unfolding c normal_path_fields dt using eq by simp
qed

subsection \<open>Reference residues that share a resid\<close>

text \<open>
  The input \<open>shared_ref\<close>, \<open>shared_sel\<close>, \<open>shared_contact\<close>: every reference residue
  has exactly one atom, the two reference residues carry the same resid, and each
  reference atom has one neighbour.  The lemmas below follow the loop on this input, with
  the capacity hint 4.
\<close>

lemma shared_near:
  "atoms_around_point shared_contact shared_sel 0 = [0]"
  "atoms_around_point shared_contact shared_sel (Suc 0) = [Suc 0]"
  by (simp_all add: atoms_around_point_def n_atoms_def shared_contact_def shared_sel_def
      upt_rec[of 0] upt_rec[of "Suc n" for n] eval_nat_numeral)

lemma shared_resids:
  "resids shared_ref = [1, 1]" "resids shared_sel = [1, 1]"
  by (simp_all add: resids_def shared_ref_def shared_sel_def shared_resid_def)

lemma shared_near_group:
  "near_group shared_sel shared_contact 0 = \<lparr>resid_of = shared_resid, resindices = [2]\<rparr>"
  "near_group shared_sel shared_contact (Suc 0) = \<lparr>resid_of = shared_resid, resindices = [3]\<rparr>"
  by (simp_all add: near_group_def shared_near) (simp_all add: shared_sel_def)

lemma shared_near_resids:
  "near_resids shared_sel shared_contact 0 = [1]"
  "near_resids shared_sel shared_contact (Suc 0) = [1]"
  by (simp_all add: near_resids_def shared_near_group resids_def shared_resid_def)

lemma shared_unique:
  "unique (resids shared_ref) = [1]" "unique (resids shared_sel) = [1]" "unique [1] = [1]"
  by (simp_all add: unique_def shared_resids)

lemma shared_counts: "unique_counts [1] = [1]"
  by (simp add: unique_counts_def shared_unique)

lemma shared_sizes:
  "n_atoms shared_ref = 2" "n_atoms shared_sel = 2" "n_residues shared_ref = 2"
  "n_residues shared_sel = 2"
  "n_residues (near_group shared_sel shared_contact 0) = 1"
  "n_residues (near_group shared_sel shared_contact (Suc 0)) = 1"
  by (simp_all add: n_atoms_def n_residues_def shared_near_group)
     (simp_all add: shared_ref_def shared_sel_def)

lemma shared_refresid:
  "searchsorted [1] (resids shared_ref ! 0) = 0"
  "searchsorted [1] (resids shared_ref ! Suc 0) = 0"
  by (simp_all add: searchsorted_def shared_resids)

lemma shared_selres_idx: "intersect1d_indices [1] [1] = [0]"
  by (simp add: intersect1d_indices_def index_of_def)

lemma shared_state_0:
  "state_after shared_ref shared_sel shared_contact 4 0 =
    \<lparr> st_refatm_selatm = [0,0,0,0],
      st_refatm_diff_selres = [0,0,0,0],
      st_refatm_same_selres = [0,0,0,0],
      st_refres_diff_selatm = [0,0],
      st_refres_selatm_tot = [0,0],
      st_refres_diff_selres = [0,0],
      st_refatm_selres_pair = [0,0,0,0],
      st_refres_selatm_pair = [[0,0],[0,0]],
      st_refres_selres_pair = [[0,0],[0,0]],
      st_selatm_unused = [[True,True],[True,True]],
      st_selres_unused = [[True,True],[True,True]] \<rparr>"
  by (simp add: state_after_def run_loop_def init_state_def shared_sizes replicate_numeral)

lemma shared_state_1:
  "state_after shared_ref shared_sel shared_contact 4 (Suc 0) =
    \<lparr> st_refatm_selatm = [0,1,0,0],
      st_refatm_diff_selres = [0,1,0,0],
      st_refatm_same_selres = [0,1,0,0],
      st_refres_diff_selatm = [1,0],
      st_refres_selatm_tot = [1,0],
      st_refres_diff_selres = [1,0],
      st_refatm_selres_pair = [0,1,0,0],
      st_refres_selatm_pair = [[1,0],[0,0]],
      st_refres_selres_pair = [[1,0],[0,0]],
      st_selatm_unused = [[False,True],[True,True]],
      st_selres_unused = [[False,True],[True,True]] \<rparr>"
  unfolding state_after_Suc shared_state_0
  by (simp add: step_def shared_near shared_near_resids shared_unique shared_counts
      shared_sizes shared_refresid shared_selres_idx list_ev)

lemma shared_state_2:
  "state_after shared_ref shared_sel shared_contact 4 (Suc (Suc 0)) =
    \<lparr> st_refatm_selatm = [0,2,0,0],
      st_refatm_diff_selres = [0,2,0,0],
      st_refatm_same_selres = [0,2,0,0],
      st_refres_diff_selatm = [2,0],
      st_refres_selatm_tot = [2,0],
      st_refres_diff_selres = [1,0],
      st_refatm_selres_pair = [0,2,0,0],
      st_refres_selatm_pair = [[1,1],[0,0]],
      st_refres_selres_pair = [[2,0],[0,0]],
      st_selatm_unused = [[False,False],[True,True]],
      st_selres_unused = [[False,True],[True,True]] \<rparr>"
  unfolding state_after_Suc[of _ _ _ _ "Suc 0"] shared_state_1
  by (simp add: step_def shared_near shared_near_resids shared_unique shared_counts
      shared_sizes shared_refresid shared_selres_idx list_ev)

lemma shared_final:
  "final_state shared_ref shared_sel shared_contact 4 =
    \<lparr> st_refatm_selatm = [0,2,0,0],
      st_refatm_diff_selres = [0,2,0,0],
      st_refatm_same_selres = [0,2,0,0],
      st_refres_diff_selatm = [2,0],
      st_refres_selatm_tot = [2,0],
      st_refres_diff_selres = [1,0],
      st_refatm_selres_pair = [0,2,0,0],
      st_refres_selatm_pair = [[1,1],[0,0]],
      st_refres_selres_pair = [[2,0],[0,0]],
      st_selatm_unused = [[False,False],[True,True]],
      st_selres_unused = [[False,True],[True,True]] \<rparr>"
proof -
  have "n_atoms shared_ref = Suc (Suc 0)" by (simp add: shared_sizes)
  then show ?thesis by (simp only: final_state_after shared_state_2)
qed

lemma shared_common_length:
  "common_length (raw_hists shared_ref shared_sel shared_contact 4) = 4"
  by (simp add: raw_hists_final shared_final common_length_def length_same_hist
      pair_hist_def length_bincount example_rows np_max_def)

text \<open>
  Claim C7.  The relation between the residue-level and the atom-level histograms fails
  when two reference residues carry the same resid.  On the input above every reference
  residue has exactly one atom (the residue indices of the reference atoms are pairwise
  different), and each of the two reference atoms has one neighbour, so the returned
  \<open>refatm_selatm\<close> is \<open>[0, 2, 0, 0]\<close>.  Line 491 finds the row of a reference atom from
  its resid, so both atoms are accumulated in row 0 of arrays that have
  \<open>ref.n_residues = 2\<close> rows: row 0 holds two contacts and row 1 none, and the returned
  \<open>refres_diff_selatm\<close> and \<open>refres_selatm_tot\<close> are \<open>[1, 0, 1, 0]\<close>.  With \<open>debug=True\<close>
  the test of line 702 on \<open>ref.resindices\<close> succeeds for this input and line 716 raises.
\<close>

theorem shared_resid_histograms:
  "distinct (resindices shared_ref)
   \<and> refatm_selatm (snd (contact_hist shared_ref shared_sel shared_contact 1 4)) = [0, 2, 0, 0]
   \<and> refres_diff_selatm (snd (contact_hist shared_ref shared_sel shared_contact 1 4)) = [1, 0, 1, 0]
   \<and> refres_selatm_tot (snd (contact_hist shared_ref shared_sel shared_contact 1 4)) = [1, 0, 1, 0]"
proof -
  have h: "hint 4 = 4" by (simp add: hint_def)
  have n: "n_atoms shared_ref \<noteq> 0" "n_atoms shared_sel \<noteq> 0" "(0::real) < 1"
    by (simp_all add: shared_sizes)
  have d: "distinct (resindices shared_ref)" by (simp add: shared_ref_def)
  have 1: "refatm_selatm (normal_path shared_ref shared_sel shared_contact 4) = [0, 2, 0, 0]"
    unfolding normal_path_fields shared_common_length shared_final
    by (simp add: nph_extend_def)
  have 2: "refres_diff_selatm (normal_path shared_ref shared_sel shared_contact 4) = [1, 0, 1, 0]"
    unfolding normal_path_fields shared_common_length shared_final
    by (simp add: nph_extend_def example_bincounts)
  have 3: "refres_selatm_tot (normal_path shared_ref shared_sel shared_contact 4) = [1, 0, 1, 0]"
    unfolding normal_path_fields shared_common_length shared_final
    by (simp add: nph_extend_def example_bincounts)
  show ?thesis unfolding contact_hist_normal[OF n] h using d 1 2 3 by simp
qed

subsection \<open>The array accesses of the source are in range\<close>

text \<open>
  A read or a write out of range raises \<open>IndexError\<close> in the source, and an index array
  and a value array of different lengths do not broadcast.  On the normal path this does
  not happen: every index the loop uses is inside its array, the index and value arrays of
  \<open>np.add.at\<close> have the same length, and the arrays given to \<open>np.max\<close> are not empty.
\<close>

lemma distinct_unique: "distinct (unique xs)"
  by (simp add: unique_def)

lemma index_of_less: "v \<in> set a \<Longrightarrow> index_of a v < length a"
proof -
  assume "v \<in> set a"
  then have "takeWhile (\<lambda>x. x \<noteq> v) a \<noteq> a" by (auto simp: takeWhile_eq_all_conv)
  then show ?thesis
    using length_takeWhile_le[of "\<lambda>x. x \<noteq> v" a]
    by (metis index_of_def le_neq_implies_less takeWhile_eq_take take_all_iff order_refl)
qed

lemma set_near_resids: "set (near_resids sel contact i) \<subseteq> set (resids sel)"
  by (auto simp: near_resids_def near_group_def resids_def atoms_around_point_def n_atoms_def)

lemma common_selresids:
  "sort (filter (\<lambda>v. v \<in> set (unique (near_resids sel contact i))) (unique (resids sel))) =
   unique (near_resids sel contact i)"
proof (rule sorted_distinct_set_unique)
  show "set (sort (filter (\<lambda>v. v \<in> set (unique (near_resids sel contact i))) (unique (resids sel)))) =
        set (unique (near_resids sel contact i))"
    using set_near_resids[of sel contact i] by (auto simp: set_unique)
qed (simp_all add: sorted_unique distinct_unique)

lemma selresids_indices:
  "intersect1d_indices (unique (resids sel)) (unique (near_resids sel contact i)) =
   map (index_of (unique (resids sel))) (unique (near_resids sel contact i))"
  by (simp add: intersect1d_indices_def common_selresids)

lemma selresids_indices_length:
  "length (intersect1d_indices (unique (resids sel)) (unique (near_resids sel contact i))) =
   length (unique_counts (near_resids sel contact i))"
  by (simp add: selresids_indices unique_counts_def)

lemma selresids_indices_less:
  assumes "j \<in> set (intersect1d_indices (unique (resids sel)) (unique (near_resids sel contact i)))"
  shows "j < n_residues sel"
proof -
  obtain v where v: "v \<in> set (unique (near_resids sel contact i))" and j: "j = index_of (unique (resids sel)) v"
    using assms by (auto simp: selresids_indices)
  have "v \<in> set (unique (resids sel))" using v set_near_resids[of sel contact i] by (auto simp: set_unique)
  then have "index_of (unique (resids sel)) v < length (unique (resids sel))" by (rule index_of_less)
  then show ?thesis unfolding j using length_unique_resids_le[of sel] by linarith
qed

lemma st_selres_unused_step:
  "st_selres_unused (step ref sel contact i s) =
    (st_selres_unused s)[searchsorted (unique (resids ref)) (resids ref ! i) :=
      mark_used (st_selres_unused s ! searchsorted (unique (resids ref)) (resids ref ! i))
        (intersect1d_indices (unique (resids sel)) (unique (near_resids sel contact i)))]"
  by (simp add: step_def Let_def)

lemma shape_unused_after:
  "length (st_selatm_unused (state_after ref sel contact e k)) = n_residues ref"
  "\<forall>row \<in> set (st_selatm_unused (state_after ref sel contact e k)). length row = n_atoms sel"
  "length (st_selres_unused (state_after ref sel contact e k)) = n_residues ref"
  "\<forall>row \<in> set (st_selres_unused (state_after ref sel contact e k)). length row = n_residues sel"
proof (induction k)
  case 0
  {
    case 1 show ?case by (simp add: state_after_0 init_state_def)
  next
    case 2 show ?case by (simp add: state_after_0 init_state_def)
  next
    case 3 show ?case by (simp add: state_after_0 init_state_def)
  next
    case 4 show ?case by (simp add: state_after_0 init_state_def)
  }
next
  case (Suc k)
  {
    case 1 show ?case using Suc(1) by (simp add: state_after_Suc st_selatm_unused_step)
  next
    case 2 show ?case unfolding state_after_Suc st_selatm_unused_step
      using Suc(2) by (intro shape_update) (auto simp: length_mark_used)
  next
    case 3 show ?case using Suc(3) by (simp add: state_after_Suc st_selres_unused_step)
  next
    case 4 show ?case unfolding state_after_Suc st_selres_unused_step
      using Suc(4) by (intro shape_update) (auto simp: length_mark_used)
  }
qed

lemma length_refres_after:
  "length (st_refres_selatm_tot (state_after ref sel contact e k)) = n_residues ref"
  "length (st_refres_diff_selatm (state_after ref sel contact e k)) = n_residues ref"
  "length (st_refres_diff_selres (state_after ref sel contact e k)) = n_residues ref"
  by (simp_all add: state_after_def length_refres_run init_state_def)

text \<open>
  The accesses of the loop body for reference atom \<open>i\<close>, in the state the loop has reached:
  the row \<open>refresid\<close> exists in the three per-residue arrays, the two matrices and the two
  masks; the columns \<open>selatmids\<close> and \<open>selresids\<close> exist in the rows; the multiplicities are
  inside the extended atom-level histograms; \<open>refatm_same_selres[0]\<close> exists.
\<close>

lemma loop_accesses_in_range:
  assumes "i < n_atoms ref" and "0 < e"
  shows "searchsorted (unique (resids ref)) (resids ref ! i) < length (st_refres_selatm_tot (state_after ref sel contact e i))"
    and "searchsorted (unique (resids ref)) (resids ref ! i) < length (st_refres_diff_selatm (state_after ref sel contact e i))"
    and "searchsorted (unique (resids ref)) (resids ref ! i) < length (st_refres_diff_selres (state_after ref sel contact e i))"
    and "searchsorted (unique (resids ref)) (resids ref ! i) < length (st_refres_selatm_pair (state_after ref sel contact e i))"
    and "searchsorted (unique (resids ref)) (resids ref ! i) < length (st_refres_selres_pair (state_after ref sel contact e i))"
    and "searchsorted (unique (resids ref)) (resids ref ! i) < length (st_selatm_unused (state_after ref sel contact e i))"
    and "searchsorted (unique (resids ref)) (resids ref ! i) < length (st_selres_unused (state_after ref sel contact e i))"
    and "\<forall>j \<in> set (atoms_around_point contact sel i).
           j < length (st_refres_selatm_pair (state_after ref sel contact e i) ! searchsorted (unique (resids ref)) (resids ref ! i))
         \<and> j < length (st_selatm_unused (state_after ref sel contact e i) ! searchsorted (unique (resids ref)) (resids ref ! i))"
    and "\<forall>j \<in> set (intersect1d_indices (unique (resids sel)) (unique (near_resids sel contact i))).
           j < length (st_refres_selres_pair (state_after ref sel contact e i) ! searchsorted (unique (resids ref)) (resids ref ! i))
         \<and> j < length (st_selres_unused (state_after ref sel contact e i) ! searchsorted (unique (resids ref)) (resids ref ! i))"
    and "\<forall>m \<in> set (unique_counts (near_resids sel contact i)).
           m < np_max (unique_counts (near_resids sel contact i)) + 1"
    and "0 < length (st_refatm_same_selres (state_after ref sel contact e i))"
proof -
  let ?s = "state_after ref sel contact e i"
  let ?r = "searchsorted (unique (resids ref)) (resids ref ! i)"
  have r: "?r < n_residues ref" using assms(1) by (rule refresid_less)
  show "?r < length (st_refres_selatm_tot ?s)" "?r < length (st_refres_diff_selatm ?s)"
    "?r < length (st_refres_diff_selres ?s)"
    using r by (simp_all add: length_refres_after)
  show p: "?r < length (st_refres_selatm_pair ?s)" and q: "?r < length (st_refres_selres_pair ?s)"
    using r by (simp_all add: shape_pair_after)
  show u: "?r < length (st_selatm_unused ?s)" and w: "?r < length (st_selres_unused ?s)"
    using r by (simp_all add: shape_unused_after)
  have "length (st_refres_selatm_pair ?s ! ?r) = n_atoms sel"
    using shape_pair_after(2)[of ref sel contact e i] p by simp
  moreover have "length (st_selatm_unused ?s ! ?r) = n_atoms sel"
    using shape_unused_after(2)[of ref sel contact e i] u by simp
  ultimately show "\<forall>j \<in> set (atoms_around_point contact sel i).
           j < length (st_refres_selatm_pair ?s ! ?r) \<and> j < length (st_selatm_unused ?s ! ?r)"
    by (simp add: atoms_around_point_less)
  have "length (st_refres_selres_pair ?s ! ?r) = n_residues sel"
    using shape_pair_after(4)[of ref sel contact e i] q by simp
  moreover have "length (st_selres_unused ?s ! ?r) = n_residues sel"
    using shape_unused_after(4)[of ref sel contact e i] w by simp
  ultimately show "\<forall>j \<in> set (intersect1d_indices (unique (resids sel)) (unique (near_resids sel contact i))).
           j < length (st_refres_selres_pair ?s ! ?r) \<and> j < length (st_selres_unused ?s ! ?r)"
    by (simp add: selresids_indices_less)
  show "\<forall>m \<in> set (unique_counts (near_resids sel contact i)).
           m < np_max (unique_counts (near_resids sel contact i)) + 1"
    using unique_counts_le_max by blast
  show "0 < length (st_refatm_same_selres ?s)"
    using length_same_selres_after[of e ref sel contact i] assms(2) by linarith
qed

lemma matrices_not_empty:
  assumes "n_atoms ref \<noteq> 0" and "n_atoms sel \<noteq> 0"
  shows "concat (st_refres_selatm_pair (final_state ref sel contact e)) \<noteq> []"
    and "concat (st_refres_selres_pair (final_state ref sel contact e)) \<noteq> []"
    and "st_refres_diff_selatm (final_state ref sel contact e) \<noteq> []"
    and "st_refres_selatm_tot (final_state ref sel contact e) \<noteq> []"
    and "st_refres_diff_selres (final_state ref sel contact e) \<noteq> []"
proof -
  have r: "0 < n_residues ref" and s: "0 < n_residues sel"
    using assms by (simp_all add: n_residues_pos)
  let ?A = "st_refres_selatm_pair (final_state ref sel contact e)"
  let ?B = "st_refres_selres_pair (final_state ref sel contact e)"
  have "?A ! 0 \<in> set ?A" "?B ! 0 \<in> set ?B" using r by (simp_all add: shape_pair_final)
  moreover have "?A ! 0 \<noteq> []" "?B ! 0 \<noteq> []"
    using shape_pair_final(2)[of ref sel contact e] shape_pair_final(4)[of ref sel contact e]
      calculation assms(2) s by auto
  ultimately show "concat ?A \<noteq> []" "concat ?B \<noteq> []" by auto
  show "st_refres_diff_selatm (final_state ref sel contact e) \<noteq> []"
    "st_refres_selatm_tot (final_state ref sel contact e) \<noteq> []"
    "st_refres_diff_selres (final_state ref sel contact e) \<noteq> []"
    using r length_refres_final[of ref sel contact e] by auto
qed

end
